theory Spec2Isabelle
  imports Complex_Main
begin

section \<open>Python string operations used by the vector store\<close>

text \<open>
  Strings are lists of characters with code points 0..255. \<open>str.isspace\<close>,
  \<open>str.lower\<close>, \<open>str.strip\<close>, \<open>str.split\<close>, \<open>str.replace\<close>, \<open>str.join\<close> and the
  substring test \<open>in\<close> are written out as Python defines them on that range.
\<close>

definition code :: "char \<Rightarrow> nat" where
  "code c = of_char c"

definition isspace :: "char \<Rightarrow> bool" where
  "isspace c = ((of_char c :: nat) \<in> {9, 10, 11, 12, 13, 28, 29, 30, 31, 32, 133, 160})"

definition lower_char :: "char \<Rightarrow> char" where
  "lower_char c =
     (let n = (of_char c :: nat)
      in if (65 \<le> n \<and> n \<le> 90) \<or> (192 \<le> n \<and> n \<le> 222 \<and> n \<noteq> 215)
         then char_of (n + 32) else c)"

definition str_lower :: "string \<Rightarrow> string" where
  "str_lower s = map lower_char s"

definition str_strip :: "string \<Rightarrow> string" where
  "str_strip s = rev (dropWhile isspace (rev (dropWhile isspace s)))"

text \<open>\<open>s.split()\<close>: the maximal runs of non-whitespace characters, in order.\<close>

fun str_split_aux :: "string \<Rightarrow> string \<Rightarrow> string list" where
  "str_split_aux acc [] = (if acc = [] then [] else [rev acc])"
| "str_split_aux acc (c # cs) =
     (if isspace c
      then (if acc = [] then str_split_aux [] cs else rev acc # str_split_aux [] cs)
      else str_split_aux (c # acc) cs)"

definition str_split :: "string \<Rightarrow> string list" where
  "str_split s = str_split_aux [] s"

text \<open>\<open>s.split(sep)\<close> for a non-empty separator: cut at each occurrence, left to right.\<close>

fun str_split_on_aux :: "string \<Rightarrow> string \<Rightarrow> string \<Rightarrow> string list" where
  "str_split_on_aux sep acc [] = [rev acc]"
| "str_split_on_aux sep acc (c # cs) =
     (if sep \<noteq> [] \<and> take (length sep) (c # cs) = sep
      then rev acc # str_split_on_aux sep [] (drop (length sep - 1) cs)
      else str_split_on_aux sep (c # acc) cs)"

definition str_split_on :: "string \<Rightarrow> string \<Rightarrow> string list" where
  "str_split_on sep s = str_split_on_aux sep [] s"

fun str_join :: "string \<Rightarrow> string list \<Rightarrow> string" where
  "str_join sep [] = []"
| "str_join sep [x] = x"
| "str_join sep (x # y # ys) = x @ sep @ str_join sep (y # ys)"

definition str_replace :: "string \<Rightarrow> string \<Rightarrow> string \<Rightarrow> string" where
  "str_replace old new s = str_join new (str_split_on old s)"

text \<open>\<open>sub in s\<close>.\<close>

fun str_contains :: "string \<Rightarrow> string \<Rightarrow> bool" where
  "str_contains sub [] = (sub = [])"
| "str_contains sub (c # cs) = (take (length sub) (c # cs) = sub \<or> str_contains sub cs)"

section \<open>Data model\<close>

text \<open>
  Python values, as far as metadata holds them. \<open>PTuple\<close> is a tuple, \<open>POther\<close> any object
  that \<open>json\<close> cannot serialise. A float is a real number or one of the three special
  values; the rounding of floats is not modelled. The keys of a dict are strings,
  integers, floats, booleans, \<open>None\<close>, or something else hashable (\<open>KOther\<close>).
\<close>

datatype pyfloat = Finite real | PosInf | NegInf | NaN

datatype pykey = KStr string | KInt int | KFloat pyfloat | KBool bool | KNone | KOther

datatype pyval =
    PNone
  | PBool bool
  | PInt int
  | PFloat pyfloat
  | PStr string
  | PList "pyval list"
  | PTuple "pyval list"
  | PDict "(pykey \<times> pyval) list"
  | POther

fun is_dict :: "pyval \<Rightarrow> bool" where
  "is_dict (PDict kvs) = True"
| "is_dict v = False"

type_synonym vector = "real list"

text \<open>
  A row as the backend returns it (a Python dict). Rows of the \<open>documents\<close> table carry
  an embedding and no score; rows of the similarity query carry a score and no
  embedding. The store-assigned columns \<open>id\<close>, \<open>created_at\<close> and \<open>updated_at\<close> are left
  out.
\<close>

record row =
  doc_id :: string
  content :: string
  embedding :: "vector option"
  metadata :: pyval
  score :: "real option"

text \<open>
  A document passed to \<open>upsert_batch\<close>: a dict in which each of the keys \<open>doc_id\<close>,
  \<open>content\<close> and \<open>metadata\<close> may be missing.
\<close>

record document =
  d_doc_id :: "string option"
  d_content :: "string option"
  d_metadata :: "pyval option"

datatype error =
    ValueError
  | RuntimeError
  | KeyError
  | IndexError
  | TypeError
  | UnicodeEncodeError
  | EmbeddingError
  | TransportError
  | LoopExit

text \<open>
  What the next call to the persistence backend does: answer, raise a transport
  exception, or answer with the \<open>error\<close> attribute set and no data.
\<close>

datatype db_outcome = DbOk | DbRaise | DbError

text \<open>
  The world the store runs in. \<open>table\<close> is the \<open>documents\<close> table in store order.
  \<open>db_faults\<close> and \<open>embed_faults\<close> script the outcome of the coming calls to the
  backend and to the embedding service, first call first; once a script is used up
  every call succeeds. \<open>sleeps\<close> records the arguments of \<open>time.sleep\<close> in call order.
  \<open>cache\<close> is the \<open>lru_cache\<close> of \<open>_embed_single\<close>, most recently used first.
  \<open>embed_model\<close>, \<open>distance\<close> and \<open>float_repr\<close> are the fixed behaviour of the embedding
  model, of the backend's \<open><=>\<close> operator and of \<open>float.__repr__\<close>. \<open>stdout_encodes\<close> tells
  which characters beyond ASCII the encoding of \<open>sys.stdout\<close> can encode.
\<close>

record world =
  table :: "row list"
  db_faults :: "db_outcome list"
  embed_faults :: "bool list"
  sleeps :: "nat list"
  cache :: "(string \<times> vector) list"
  embed_model :: "string \<Rightarrow> vector"
  distance :: "vector \<Rightarrow> vector \<Rightarrow> real"
  float_repr :: "real \<Rightarrow> string"
  stdout_encodes :: "char \<Rightarrow> bool"

section \<open>Exceptions and state\<close>

text \<open>
  A Python call either returns a value or raises, and changes the world either way.
\<close>

type_synonym 'a io = "world \<Rightarrow> (error + 'a) \<times> world"

definition return :: "'a \<Rightarrow> 'a io" where
  "return x w = (Inr x, w)"

definition raise :: "error \<Rightarrow> 'a io" where
  "raise e w = (Inl e, w)"

definition bind :: "'a io \<Rightarrow> ('a \<Rightarrow> 'b io) \<Rightarrow> 'b io" where
  "bind m f w = (case m w of (Inl e, w') \<Rightarrow> (Inl e, w') | (Inr x, w') \<Rightarrow> f x w')"

text \<open>\<open>try: m except Exception as e: h e\<close>.\<close>

definition try_except :: "'a io \<Rightarrow> (error \<Rightarrow> 'a io) \<Rightarrow> 'a io" where
  "try_except m h w = (case m w of (Inl e, w') \<Rightarrow> h e w' | (Inr x, w') \<Rightarrow> (Inr x, w'))"

definition sleep :: "nat \<Rightarrow> unit io" where
  "sleep n w = (Inr (), w\<lparr>sleeps := sleeps w @ [n]\<rparr>)"

text \<open>
  \<open>print(s)\<close> raises \<open>UnicodeEncodeError\<close> when the encoding of \<open>sys.stdout\<close> cannot encode a
  character of \<open>s\<close>; ASCII characters are always encoded. The calls that print text of
  the caller (the query, a search term) are in the model. The other calls print
  fixed text with the message of a caught exception or the error of a backend
  answer, which are ASCII text in this model; they cannot fail and are left out.
\<close>

definition encodable :: "world \<Rightarrow> char \<Rightarrow> bool" where
  "encodable w c = (code c < 128 \<or> stdout_encodes w c)"

definition can_print :: "world \<Rightarrow> string \<Rightarrow> bool" where
  "can_print w s = list_all (encodable w) s"

definition print :: "string \<Rightarrow> unit io" where
  "print s w = (if can_print w s then (Inr (), w) else (Inl UnicodeEncodeError, w))"

section \<open>Constants\<close>

definition TOPK_DEFAULT :: nat where "TOPK_DEFAULT = 8"
definition BATCH_SIZE :: nat where "BATCH_SIZE = 20"
definition MAX_RETRIES :: nat where "MAX_RETRIES = 3"
definition RETRY_DELAY :: nat where "RETRY_DELAY = 2"

section \<open>The persistence backend\<close>

text \<open>
  The backend is an external service. It is modelled from section 6 of the
  specification as a keyed-row store: upsert by the unique key \<open>doc_id\<close>, delete and
  get by key, row count, pattern filtering over \<open>content\<close>, and a similarity query that
  orders rows by distance and derives \<open>score = 1 - distance\<close>.
\<close>

record response =
  resp_data :: "row list"
  resp_error :: bool
  resp_count :: nat

definition ok_response :: "row list \<Rightarrow> response" where
  "ok_response rows = \<lparr>resp_data = rows, resp_error = False, resp_count = length rows\<rparr>"

definition error_response :: response where
  "error_response = \<lparr>resp_data = [], resp_error = True, resp_count = 0\<rparr>"

text \<open>
  \<open>.execute()\<close>: the next entry of \<open>db_faults\<close> decides whether the request raises,
  answers with an error, or runs the query on the table. A failed request leaves the
  table unchanged.
\<close>

definition execute :: "(row list \<Rightarrow> response \<times> row list) \<Rightarrow> response io" where
  "execute q w =
     (case db_faults w of
        DbRaise # fs \<Rightarrow> (Inl TransportError, w\<lparr>db_faults := fs\<rparr>)
      | DbError # fs \<Rightarrow> (Inr error_response, w\<lparr>db_faults := fs\<rparr>)
      | DbOk # fs \<Rightarrow> (case q (table w) of (r, t) \<Rightarrow> (Inr r, w\<lparr>table := t, db_faults := fs\<rparr>))
      | [] \<Rightarrow> (case q (table w) of (r, t) \<Rightarrow> (Inr r, w\<lparr>table := t\<rparr>)))"

text \<open>SQL \<open>LIKE\<close>: \<open>%\<close> matches any sequence, \<open>_\<close> any one character. \<open>ILIKE\<close> ignores case.\<close>

fun like :: "string \<Rightarrow> string \<Rightarrow> bool" where
  "like [] [] = True"
| "like [] (c # cs) = False"
| "like (p # ps) [] = (p = CHR ''%'' \<and> like ps [])"
| "like (p # ps) (c # cs) =
     (if p = CHR ''%'' then like ps (c # cs) \<or> like (p # ps) cs
      else (p = CHR ''_'' \<or> p = c) \<and> like ps cs)"

definition ilike :: "string \<Rightarrow> string \<Rightarrow> bool" where
  "ilike pattern s = like (str_lower pattern) (str_lower s)"

fun upsert_row :: "row \<Rightarrow> row list \<Rightarrow> row list" where
  "upsert_row r [] = [r]"
| "upsert_row r (x # xs) = (if doc_id x = doc_id r then r # xs else x # upsert_row r xs)"

definition q_upsert :: "row list \<Rightarrow> row list \<Rightarrow> response \<times> row list" where
  "q_upsert rows t = (ok_response rows, fold upsert_row rows t)"

definition q_delete_eq :: "string \<Rightarrow> row list \<Rightarrow> response \<times> row list" where
  "q_delete_eq k t =
     (ok_response (filter (\<lambda>r. doc_id r = k) t), filter (\<lambda>r. doc_id r \<noteq> k) t)"

definition q_select_eq :: "string \<Rightarrow> row list \<Rightarrow> response \<times> row list" where
  "q_select_eq k t = (ok_response (filter (\<lambda>r. doc_id r = k) t), t)"

definition q_select_ilike :: "string \<Rightarrow> nat \<Rightarrow> row list \<Rightarrow> response \<times> row list" where
  "q_select_ilike pattern n t =
     (ok_response (take n (filter (\<lambda>r. ilike pattern (content r)) t)), t)"

definition q_select_limit :: "nat \<Rightarrow> row list \<Rightarrow> response \<times> row list" where
  "q_select_limit n t = (ok_response (take n t), t)"

definition q_count :: "row list \<Rightarrow> response \<times> row list" where
  "q_count t = (\<lparr>resp_data = [], resp_error = False, resp_count = length t\<rparr>, t)"

text \<open>
  The similarity query of \<open>search\<close>: \<open>doc_id\<close>, \<open>content\<close>, \<open>metadata\<close> and
  \<open>1 - (embedding <=> q)\<close>, ordered by distance (a stable sort), cut at the limit.
  A row without an embedding has a null distance: it sorts last and has no score.
\<close>

definition scored :: "real option \<Rightarrow> row \<Rightarrow> row" where
  "scored s r = r\<lparr>embedding := None, score := s\<rparr>"

definition q_similarity ::
  "(vector \<Rightarrow> vector \<Rightarrow> real) \<Rightarrow> vector \<Rightarrow> nat \<Rightarrow> row list \<Rightarrow> response \<times> row list" where
  "q_similarity dst q n t =
     (ok_response (take n
        (map (\<lambda>r. scored (Some (1 - dst q (the (embedding r)))) r)
             (sort_key (\<lambda>r. dst q (the (embedding r))) (filter (\<lambda>r. embedding r \<noteq> None) t))
         @ map (scored None) (filter (\<lambda>r. embedding r = None) t))), t)"

section \<open>The embedding service and the embedding helpers\<close>

text \<open>
  \<open>client.embeddings.create\<close>: one vector per input, in input order, unless the next
  entry of \<open>embed_faults\<close> is \<open>True\<close>, in which case the call raises.
\<close>

definition embeddings_create :: "string list \<Rightarrow> vector list io" where
  "embeddings_create inputs w =
     (case embed_faults w of
        True # fs \<Rightarrow> (Inl EmbeddingError, w\<lparr>embed_faults := fs\<rparr>)
      | False # fs \<Rightarrow> (Inr (map (embed_model w) inputs), w\<lparr>embed_faults := fs\<rparr>)
      | [] \<Rightarrow> (Inr (map (embed_model w) inputs), w))"

text \<open>
  The retry loop of \<open>_embed_single\<close>. \<open>create_single\<close> is the body of its \<open>try\<close>:
  the request and \<open>response.data[0].embedding\<close>, which raises \<open>IndexError\<close> on an
  empty answer. Leaving the \<open>while\<close> by its test would return \<open>None\<close>; that exit
  is \<open>LoopExit\<close> here.
\<close>

definition create_single :: "string \<Rightarrow> vector io" where
  "create_single text =
     bind (embeddings_create [text])
          (\<lambda>vs. case vs of [] \<Rightarrow> raise IndexError | v # _ \<Rightarrow> return v)"

function embed_single_loop :: "string \<Rightarrow> nat \<Rightarrow> vector io" where
  "embed_single_loop text retries w =
     (if retries < MAX_RETRIES then
        (case create_single text w of
           (Inr v, w') \<Rightarrow> (Inr v, w')
         | (Inl e, w') \<Rightarrow>
             (if Suc retries \<ge> MAX_RETRIES then (Inl e, w')
              else embed_single_loop text (Suc retries) (snd (sleep RETRY_DELAY w'))))
      else (Inl LoopExit, w))"
  by pat_completeness auto
termination
  by (relation "measure (\<lambda>(text, retries, w). MAX_RETRIES - retries)") auto

definition embed_single_uncached :: "string \<Rightarrow> vector io" where
  "embed_single_uncached text =
     (if str_strip text = [] then raise ValueError else embed_single_loop text 0)"

text \<open>
  \<open>@lru_cache(maxsize=100)\<close>: a hit returns the stored vector and makes the entry the
  most recent; a miss runs the function and stores its result unless it raised,
  dropping the least recently used entry beyond 100.
\<close>

definition embed_single :: "string \<Rightarrow> vector io" where
  "embed_single text w =
     (case map_of (cache w) text of
        Some v \<Rightarrow> (Inr v, w\<lparr>cache := (text, v) # filter (\<lambda>p. fst p \<noteq> text) (cache w)\<rparr>)
      | None \<Rightarrow>
          (case embed_single_uncached text w of
             (Inl e, w') \<Rightarrow> (Inl e, w')
           | (Inr v, w') \<Rightarrow> (Inr v, w'\<lparr>cache := take 100 ((text, v) # cache w')\<rparr>)))"

function embed_batch_loop :: "string list \<Rightarrow> nat \<Rightarrow> vector list io" where
  "embed_batch_loop valid_texts retries w =
     (if retries < MAX_RETRIES then
        (case embeddings_create valid_texts w of
           (Inr vs, w') \<Rightarrow> (Inr vs, w')
         | (Inl e, w') \<Rightarrow>
             (if Suc retries \<ge> MAX_RETRIES then (Inl e, w')
              else embed_batch_loop valid_texts (Suc retries)
                     (snd (sleep (RETRY_DELAY * Suc retries) w'))))
      else (Inl LoopExit, w))"
  by pat_completeness auto
termination
  by (relation "measure (\<lambda>(valid_texts, retries, w). MAX_RETRIES - retries)") auto

definition embed_batch :: "string list \<Rightarrow> vector list io" where
  "embed_batch texts =
     (if texts = [] then return []
      else let valid_texts = filter (\<lambda>text. str_strip text \<noteq> []) texts
           in if valid_texts = [] then return [] else embed_batch_loop valid_texts 0)"

section \<open>Python's json module\<close>

subsection \<open>json.dumps\<close>

text \<open>
  \<open>json.dumps\<close> with its default arguments: \<open>", "\<close> and \<open>": "\<close> as separators, every
  character outside the printable ASCII range escaped, a tuple written as an array, a
  key that is not a string written as the string of its text. \<open>encode\<close> is the text
  for a value that can be serialised.
\<close>

definition hex_digit :: "nat \<Rightarrow> char" where
  "hex_digit n = (if n < 10 then char_of (48 + n) else char_of (87 + n))"

definition escape_char :: "char \<Rightarrow> string" where
  "escape_char c =
     (let n = code c in
      if n = 34 then [CHR 0x5C, CHR 0x22]
      else if n = 92 then [CHR 0x5C, CHR 0x5C]
      else if n = 10 then [CHR 0x5C, CHR ''n'']
      else if n = 13 then [CHR 0x5C, CHR ''r'']
      else if n = 9 then [CHR 0x5C, CHR ''t'']
      else if n = 8 then [CHR 0x5C, CHR ''b'']
      else if n = 12 then [CHR 0x5C, CHR ''f'']
      else if n < 32 \<or> 127 \<le> n then
        [CHR 0x5C, CHR ''u'', CHR ''0'', CHR ''0'', hex_digit (n div 16), hex_digit (n mod 16)]
      else [c])"

definition encode_string :: "string \<Rightarrow> string" where
  "encode_string s = [CHR 0x22] @ concat (map escape_char s) @ [CHR 0x22]"

fun digits :: "nat \<Rightarrow> string" where
  "digits n = (if n < 10 then [char_of (48 + n)] else digits (n div 10) @ [char_of (48 + n mod 10)])"

declare digits.simps [simp del]

definition encode_int :: "int \<Rightarrow> string" where
  "encode_int i = (if i < 0 then CHR ''-'' # digits (nat (- i)) else digits (nat i))"

definition encode_float :: "(real \<Rightarrow> string) \<Rightarrow> pyfloat \<Rightarrow> string" where
  "encode_float fr f =
     (case f of Finite x \<Rightarrow> fr x | PosInf \<Rightarrow> ''Infinity'' | NegInf \<Rightarrow> ''-Infinity''
      | NaN \<Rightarrow> ''NaN'')"

definition key_text :: "(real \<Rightarrow> string) \<Rightarrow> pykey \<Rightarrow> string" where
  "key_text fr k =
     (case k of
        KStr s \<Rightarrow> s
      | KInt i \<Rightarrow> encode_int i
      | KFloat f \<Rightarrow> encode_float fr f
      | KBool b \<Rightarrow> (if b then ''true'' else ''false'')
      | KNone \<Rightarrow> ''null''
      | KOther \<Rightarrow> [])"

fun encode :: "(real \<Rightarrow> string) \<Rightarrow> pyval \<Rightarrow> string" where
  "encode fr PNone = ''null''"
| "encode fr (PBool b) = (if b then ''true'' else ''false'')"
| "encode fr (PInt i) = encode_int i"
| "encode fr (PFloat f) = encode_float fr f"
| "encode fr (PStr s) = encode_string s"
| "encode fr (PList xs) = ''['' @ str_join '', '' (map (encode fr) xs) @ '']''"
| "encode fr (PTuple xs) = ''['' @ str_join '', '' (map (encode fr) xs) @ '']''"
| "encode fr (PDict kvs) =
     ''{'' @ str_join '', ''
              (map (\<lambda>(k, v). encode_string (key_text fr k) @ '': '' @ encode fr v) kvs) @ ''}''"
| "encode fr POther = []"

fun serializable :: "pyval \<Rightarrow> bool" where
  "serializable (PList xs) = list_all serializable xs"
| "serializable (PTuple xs) = list_all serializable xs"
| "serializable (PDict kvs) = list_all (\<lambda>(k, v). k \<noteq> KOther \<and> serializable v) kvs"
| "serializable POther = False"
| "serializable v = True"

text \<open>\<open>json.dumps(v)\<close> raises \<open>TypeError\<close> on a value or a key that it cannot serialise.\<close>

definition json_dumps :: "(real \<Rightarrow> string) \<Rightarrow> pyval \<Rightarrow> error + string" where
  "json_dumps fr v = (if serializable v then Inr (encode fr v) else Inl TypeError)"

subsection \<open>json.loads\<close>

text \<open>
  \<open>json.loads\<close> with its default arguments, as a recursive-descent parser: strings are
  scanned strictly (no raw control character), a number is an optional minus sign
  and either 0 or digits that do not start with 0, with an optional fraction and
  exponent, and is a float when it has either, \<open>NaN\<close>,
  \<open>Infinity\<close> and \<open>-Infinity\<close> are accepted, and a repeated key keeps its first place
  and takes the last value. The result is \<open>None\<close> where \<open>json.loads\<close> raises
  \<open>JSONDecodeError\<close>. The value of a float literal is its exact decimal value. A
  four-digit hexadecimal escape beyond \<open>00ff\<close> names a character outside the strings of
  this model: the parser gives \<open>None\<close> there. The fuel is twice the length of the text, more than the
  parser needs.
\<close>

definition is_ws :: "char \<Rightarrow> bool" where
  "is_ws c = (code c = 32 \<or> code c = 9 \<or> code c = 10 \<or> code c = 13)"

definition skip_ws :: "string \<Rightarrow> string" where
  "skip_ws s = dropWhile is_ws s"

definition is_digit :: "char \<Rightarrow> bool" where
  "is_digit c = (48 \<le> code c \<and> code c \<le> 57)"

definition hex_val :: "char \<Rightarrow> nat option" where
  "hex_val c =
     (let n = code c in
      if 48 \<le> n \<and> n \<le> 57 then Some (n - 48)
      else if 97 \<le> n \<and> n \<le> 102 then Some (n - 87)
      else if 65 \<le> n \<and> n \<le> 70 then Some (n - 55)
      else None)"

definition hex4 :: "char \<Rightarrow> char \<Rightarrow> char \<Rightarrow> char \<Rightarrow> nat option" where
  "hex4 a b c d =
     (case (hex_val a, hex_val b, hex_val c, hex_val d) of
        (Some p, Some q, Some r, Some s) \<Rightarrow> Some (((p * 16 + q) * 16 + r) * 16 + s)
      | _ \<Rightarrow> None)"

definition unescape :: "char \<Rightarrow> char option" where
  "unescape e =
     (let n = code e in
      if n = 34 then Some (CHR 0x22)
      else if n = 92 then Some (CHR 0x5C)
      else if n = 47 then Some (CHR ''/'')
      else if n = 110 then Some (CHR 0x0A)
      else if n = 114 then Some (CHR 0x0D)
      else if n = 116 then Some (CHR 0x09)
      else if n = 98 then Some (CHR 0x08)
      else if n = 102 then Some (CHR 0x0C)
      else None)"

fun scan_string :: "string \<Rightarrow> string \<Rightarrow> (string \<times> string) option" where
  "scan_string acc [] = None"
| "scan_string acc (c # cs) =
     (if code c = 34 then Some (rev acc, cs)
      else if code c = 92 then
        (case cs of
           [] \<Rightarrow> None
         | e # rest \<Rightarrow>
             if code e = 117 then
               (case rest of
                  h1 # h2 # h3 # h4 # rest' \<Rightarrow>
                    (case hex4 h1 h2 h3 h4 of
                       Some n \<Rightarrow> if n < 256 then scan_string (char_of n # acc) rest' else None
                     | None \<Rightarrow> None)
                | _ \<Rightarrow> None)
             else (case unescape e of
                     Some x \<Rightarrow> scan_string (x # acc) rest
                   | None \<Rightarrow> None))
      else if code c < 32 then None
      else scan_string (c # acc) cs)"

definition nat_of_digits :: "string \<Rightarrow> nat" where
  "nat_of_digits ds = foldl (\<lambda>a c. a * 10 + (code c - 48)) 0 ds"

definition scan_int_part :: "string \<Rightarrow> (string \<times> string) option" where
  "scan_int_part s =
     (case s of
        [] \<Rightarrow> None
      | d # t \<Rightarrow>
          if \<not> is_digit d then None
          else if code d = 48 then Some ([d], t)
          else Some (d # takeWhile is_digit t, dropWhile is_digit t))"

definition scan_frac :: "string \<Rightarrow> string \<times> string" where
  "scan_frac s =
     (case s of
        p # f # t \<Rightarrow>
          if code p = 46 \<and> is_digit f then (f # takeWhile is_digit t, dropWhile is_digit t)
          else ([], s)
      | _ \<Rightarrow> ([], s))"

definition scan_exp :: "string \<Rightarrow> int option \<times> string" where
  "scan_exp s =
     (case s of
        e # sg # t \<Rightarrow>
          if code e = 101 \<or> code e = 69 then
            (if is_digit sg then
               (Some (int (nat_of_digits (takeWhile is_digit (sg # t)))), dropWhile is_digit t)
             else if code sg = 45 \<or> code sg = 43 then
               (case t of
                  d # u \<Rightarrow>
                    if is_digit d then
                      (Some ((if code sg = 45 then - 1 else 1)
                               * int (nat_of_digits (takeWhile is_digit t))),
                       dropWhile is_digit t)
                    else (None, s)
                | [] \<Rightarrow> (None, s))
             else (None, s))
          else (None, s)
      | _ \<Rightarrow> (None, s))"

definition float_value :: "bool \<Rightarrow> string \<Rightarrow> string \<Rightarrow> int option \<Rightarrow> real" where
  "float_value neg ds fs ex =
     (if neg then - 1 else 1) * real (nat_of_digits (ds @ fs)) / 10 ^ length fs
       * (case ex of
            None \<Rightarrow> 1
          | Some e \<Rightarrow> if 0 \<le> e then 10 ^ nat e else 1 / 10 ^ nat (- e))"

definition scan_number :: "string \<Rightarrow> (pyval \<times> string) option" where
  "scan_number s =
     (let neg = (case s of c # t \<Rightarrow> code c = 45 | [] \<Rightarrow> False);
          s1 = (if neg then tl s else s)
      in case scan_int_part s1 of
           None \<Rightarrow> None
         | Some (ds, r1) \<Rightarrow>
             (case scan_frac r1 of
                (fs, r2) \<Rightarrow>
                  (case scan_exp r2 of
                     (ex, r3) \<Rightarrow>
                       if fs = [] \<and> ex = None
                       then Some (PInt ((if neg then - 1 else 1) * int (nat_of_digits ds)), r3)
                       else Some (PFloat (Finite (float_value neg ds fs ex)), r3))))"

fun dict_set :: "pykey \<Rightarrow> pyval \<Rightarrow> (pykey \<times> pyval) list \<Rightarrow> (pykey \<times> pyval) list" where
  "dict_set k v [] = [(k, v)]"
| "dict_set k v ((k', v') # kvs) =
     (if k' = k then (k, v) # kvs else (k', v') # dict_set k v kvs)"

definition starts_with :: "string \<Rightarrow> string \<Rightarrow> bool" where
  "starts_with p s = (take (length p) s = p)"

fun parse_value :: "nat \<Rightarrow> string \<Rightarrow> (pyval \<times> string) option"
and parse_elems :: "nat \<Rightarrow> pyval list \<Rightarrow> string \<Rightarrow> (pyval list \<times> string) option"
and parse_members ::
  "nat \<Rightarrow> (pykey \<times> pyval) list \<Rightarrow> string \<Rightarrow> ((pykey \<times> pyval) list \<times> string) option"
where
  "parse_value 0 s = None"
| "parse_value (Suc n) s =
     (case s of
        [] \<Rightarrow> None
      | c # cs \<Rightarrow>
          if code c = 34 then
            (case scan_string [] cs of None \<Rightarrow> None | Some (x, r) \<Rightarrow> Some (PStr x, r))
          else if code c = 123 then
            (case skip_ws cs of
               [] \<Rightarrow> None
             | d # r \<Rightarrow>
                 if code d = 125 then Some (PDict [], r)
                 else (case parse_members n [] (d # r) of
                         None \<Rightarrow> None
                       | Some (kvs, r') \<Rightarrow> Some (PDict kvs, r')))
          else if code c = 91 then
            (case skip_ws cs of
               [] \<Rightarrow> None
             | d # r \<Rightarrow>
                 if code d = 93 then Some (PList [], r)
                 else (case parse_elems n [] (d # r) of
                         None \<Rightarrow> None
                       | Some (xs, r') \<Rightarrow> Some (PList xs, r')))
          else if starts_with ''null'' s then Some (PNone, drop 4 s)
          else if starts_with ''true'' s then Some (PBool True, drop 4 s)
          else if starts_with ''false'' s then Some (PBool False, drop 5 s)
          else (case scan_number s of
                  Some r \<Rightarrow> Some r
                | None \<Rightarrow>
                    if starts_with ''NaN'' s then Some (PFloat NaN, drop 3 s)
                    else if starts_with ''Infinity'' s then Some (PFloat PosInf, drop 8 s)
                    else if starts_with ''-Infinity'' s then Some (PFloat NegInf, drop 9 s)
                    else None))"
| "parse_elems 0 acc s = None"
| "parse_elems (Suc n) acc s =
     (case parse_value n s of
        None \<Rightarrow> None
      | Some (v, r) \<Rightarrow>
          (case skip_ws r of
             [] \<Rightarrow> None
           | d # r' \<Rightarrow>
               if code d = 44 then parse_elems n (acc @ [v]) (skip_ws r')
               else if code d = 93 then Some (acc @ [v], r')
               else None))"
| "parse_members 0 acc s = None"
| "parse_members (Suc n) acc s =
     (case s of
        [] \<Rightarrow> None
      | q # cs \<Rightarrow>
          if code q = 34 then
            (case scan_string [] cs of
               None \<Rightarrow> None
             | Some (k, r) \<Rightarrow>
                 (case skip_ws r of
                    [] \<Rightarrow> None
                  | colon # r1 \<Rightarrow>
                      if code colon = 58 then
                        (case parse_value n (skip_ws r1) of
                           None \<Rightarrow> None
                         | Some (v, r2) \<Rightarrow>
                             (case skip_ws r2 of
                                [] \<Rightarrow> None
                              | d # r3 \<Rightarrow>
                                  if code d = 44
                                  then parse_members n (dict_set (KStr k) v acc) (skip_ws r3)
                                  else if code d = 125 then Some (dict_set (KStr k) v acc, r3)
                                  else None))
                      else None))
          else None)"

definition json_loads :: "string \<Rightarrow> pyval option" where
  "json_loads s =
     (case parse_value (Suc (2 * length s)) (skip_ws s) of
        None \<Rightarrow> None
      | Some (v, r) \<Rightarrow> if skip_ws r = [] then Some v else None)"

section \<open>The vector store\<close>

subsection \<open>upsert\<close>

text \<open>\<open>json.dumps(metadata) if isinstance(metadata, dict) else metadata\<close>.\<close>

definition dumps_metadata :: "(real \<Rightarrow> string) \<Rightarrow> pyval \<Rightarrow> error + pyval" where
  "dumps_metadata fr meta =
     (if is_dict meta then
        (case json_dumps fr meta of Inl e \<Rightarrow> Inl e | Inr s \<Rightarrow> Inr (PStr s))
      else Inr meta)"

definition upsert :: "string \<Rightarrow> string \<Rightarrow> pyval \<Rightarrow> row io" where
  "upsert did text meta =
     try_except
       (if str_strip text = [] then raise ValueError
        else if did = [] then raise ValueError
        else bind (embed_single text) (\<lambda>emb w.
               case dumps_metadata (float_repr w) meta of
                 Inl e \<Rightarrow> raise e w
               | Inr m \<Rightarrow>
                   bind (execute (q_upsert
                           [\<lparr>doc_id = did, content = text, embedding = Some emb,
                             metadata = m, score = None\<rparr>]))
                        (\<lambda>response.
                           if resp_error response then raise RuntimeError
                           else (case resp_data response of
                                   [] \<Rightarrow> raise RuntimeError
                                 | r # _ \<Rightarrow> return r)) w))
       (\<lambda>e. raise e)"

subsection \<open>upsert_batch\<close>

text \<open>\<open>"content" in doc and doc["content"]\<close>.\<close>

definition has_content :: "document \<Rightarrow> bool" where
  "has_content doc = (case d_content doc of None \<Rightarrow> False | Some c \<Rightarrow> c \<noteq> [])"

text \<open>\<open>[documents[i:i + _BATCH_SIZE] for i in range(0, len(documents), _BATCH_SIZE)]\<close>.\<close>

definition batches :: "document list \<Rightarrow> document list list" where
  "batches documents =
     map (\<lambda>j. take BATCH_SIZE (drop (j * BATCH_SIZE) documents))
         [0..<(length documents + BATCH_SIZE - 1) div BATCH_SIZE]"

text \<open>
  The loop over \<open>enumerate(batch)\<close> that builds the rows: document number \<open>i\<close> of the
  batch takes \<open>embeddings[i]\<close>.
\<close>

fun build_rows ::
  "(real \<Rightarrow> string) \<Rightarrow> vector list \<Rightarrow> (nat \<times> document) list \<Rightarrow> error + row list" where
  "build_rows fr embeddings [] = Inr []"
| "build_rows fr embeddings ((i, doc) # rest) =
     (if i < length embeddings \<and> has_content doc then
        (case d_doc_id doc of
           None \<Rightarrow> Inl KeyError
         | Some did \<Rightarrow>
             (case dumps_metadata fr (case d_metadata doc of None \<Rightarrow> PDict [] | Some m \<Rightarrow> m) of
                Inl e \<Rightarrow> Inl e
              | Inr m \<Rightarrow>
                  (case build_rows fr embeddings rest of
                     Inl e \<Rightarrow> Inl e
                   | Inr rows \<Rightarrow>
                       Inr (\<lparr>doc_id = did,
                             content = (case d_content doc of Some c \<Rightarrow> c | None \<Rightarrow> []),
                             embedding = Some (embeddings ! i),
                             metadata = m,
                             score = None\<rparr> # rows))))
      else build_rows fr embeddings rest)"

fun batch_loop :: "document list list \<Rightarrow> row list \<Rightarrow> row list io" where
  "batch_loop [] results w = (Inr results, w)"
| "batch_loop (batch # rest) results w =
     (let contents = map (\<lambda>doc. case d_content doc of Some c \<Rightarrow> c | None \<Rightarrow> [])
                         (filter has_content batch)
      in if contents \<noteq> [] then
           (case embed_batch contents w of
              (Inl e, w1) \<Rightarrow> (Inl e, w1)
            | (Inr embeddings, w1) \<Rightarrow>
                (case build_rows (float_repr w1) embeddings (enumerate 0 batch) of
                   Inl e \<Rightarrow> (Inl e, w1)
                 | Inr rows \<Rightarrow>
                     if rows \<noteq> [] then
                       (case execute (q_upsert rows) w1 of
                          (Inl e, w2) \<Rightarrow> (Inl e, w2)
                        | (Inr response, w2) \<Rightarrow>
                            if resp_error response then (Inl RuntimeError, w2)
                            else batch_loop rest (results @ resp_data response) w2)
                     else batch_loop rest results w1))
         else batch_loop rest results w)"

definition upsert_batch :: "document list \<Rightarrow> row list io" where
  "upsert_batch documents =
     (if documents = [] then return []
      else try_except (batch_loop (batches documents) []) (\<lambda>e. raise e))"

subsection \<open>search_fallback\<close>

text \<open>The two calls of \<open>print\<close> that write text of the caller.\<close>

definition print_using :: "string \<Rightarrow> unit io" where
  "print_using query = print (''[supabase_search] Using fallback search for: '' @ query)"

definition print_found :: "nat \<Rightarrow> string \<Rightarrow> unit io" where
  "print_found n search_term =
     print (''[supabase_search] Found '' @ digits n @ '' results with fallback (term: ''
            @ search_term @ '')'')"

text \<open>
  The \<open>for i in range(len(query_words))\<close> loop with its \<open>break\<close> at \<open>i > 3\<close>. A pattern
  that matches is printed before its rows are returned.
\<close>

function narrowing_loop :: "string list \<Rightarrow> nat \<Rightarrow> nat \<Rightarrow> row list option io" where
  "narrowing_loop query_words i top_k w =
     (if i < length query_words \<and> \<not> 3 < i then
        (case execute (q_select_ilike (''%'' @ str_join ''%'' (drop i query_words) @ ''%'') top_k) w of
           (Inl e, w') \<Rightarrow> (Inl e, w')
         | (Inr response, w') \<Rightarrow>
             if resp_data response \<noteq> [] then
               (case print_found (length (resp_data response))
                       (''%'' @ str_join ''%'' (drop i query_words) @ ''%'') w' of
                  (Inl e, w'') \<Rightarrow> (Inl e, w'')
                | (Inr u, w'') \<Rightarrow> (Inr (Some (resp_data response)), w''))
             else narrowing_loop query_words (Suc i) top_k w')
      else (Inr None, w))"
  by pat_completeness auto
termination
  by (relation "measure (\<lambda>(query_words, i, top_k, w). length query_words - i)") auto

text \<open>
  The \<open>"project"\<close> heuristic. \<open>split("project")[1]\<close> and \<open>.split()[0]\<close> raise
  \<open>IndexError\<close> when the list is too short.
\<close>

definition project_stage :: "string \<Rightarrow> nat \<Rightarrow> row list option io" where
  "project_stage query top_k =
     (if str_contains ''project'' (str_lower query) then
        (case str_split_on ''project'' (str_lower query) of
           a # b # _ \<Rightarrow>
             (case str_split (str_strip b) of
                [] \<Rightarrow> raise IndexError
              | project_name # _ \<Rightarrow>
                  if project_name \<noteq> [] then
                    bind (execute (q_select_ilike (''%project '' @ project_name @ ''%'') top_k))
                         (\<lambda>response.
                            if resp_data response \<noteq> [] then return (Some (resp_data response))
                            else return None)
                  else return None)
         | _ \<Rightarrow> raise IndexError)
      else return None)"

text \<open>The client-side loop over the fetched documents, with its \<open>break\<close>.\<close>

fun client_filter :: "string list \<Rightarrow> nat \<Rightarrow> row list \<Rightarrow> row list \<Rightarrow> row list" where
  "client_filter query_terms top_k [] results = results"
| "client_filter query_terms top_k (doc # docs) results =
     (if list_ex (\<lambda>t. str_contains t (str_lower (content doc))) query_terms then
        (if length (results @ [doc]) \<ge> top_k then results @ [doc]
         else client_filter query_terms top_k docs (results @ [doc]))
      else client_filter query_terms top_k docs results)"

definition query_words_of :: "string \<Rightarrow> string list" where
  "query_words_of query =
     str_split (str_replace ''.'' [] (str_replace ''?'' [] (str_lower query)))"

definition fallback_body :: "string \<Rightarrow> nat \<Rightarrow> row list io" where
  "fallback_body query top_k =
     bind (narrowing_loop (query_words_of query) 0 top_k) (\<lambda>found1.
       case found1 of
         Some rows \<Rightarrow> return rows
       | None \<Rightarrow>
           bind (project_stage query top_k) (\<lambda>found2.
             case found2 of
               Some rows \<Rightarrow> return rows
             | None \<Rightarrow>
                 bind (execute (q_select_limit 100)) (\<lambda>response.
                   if resp_data response \<noteq> [] then
                     return (take top_k
                       (client_filter (remdups (query_words_of query)) top_k (resp_data response) []))
                   else return [])))"

text \<open>
  \<open>search_fallback\<close> prints the query before its \<open>try\<close>: an exception of that call
  reaches the caller.
\<close>

definition search_fallback :: "string \<Rightarrow> nat \<Rightarrow> row list io" where
  "search_fallback query top_k =
     bind (print_using query) (\<lambda>u.
       try_except (fallback_body query top_k)
         (\<lambda>e. try_except
                 (bind (execute (q_select_limit top_k)) (\<lambda>response. return (resp_data response)))
                 (\<lambda>e'. return [])))"

subsection \<open>search\<close>

text \<open>\<open>json.loads\<close> on a metadata string, keeping the string when it does not parse.\<close>

definition parse_metadata :: "row \<Rightarrow> row" where
  "parse_metadata r =
     (case metadata r of
        PStr s \<Rightarrow> (case json_loads s of Some j \<Rightarrow> r\<lparr>metadata := j\<rparr> | None \<Rightarrow> r)
      | _ \<Rightarrow> r)"

text \<open>The embedding of the query followed by the similarity query.\<close>

definition vector_stage :: "string \<Rightarrow> nat \<Rightarrow> response io" where
  "vector_stage query top_k =
     bind (embed_single query) (\<lambda>q_emb w. execute (q_similarity (distance w) q_emb top_k) w)"

definition search :: "string \<Rightarrow> nat \<Rightarrow> row list io" where
  "search query top_k =
     try_except
       (if str_strip query = [] then raise ValueError
        else bind (vector_stage query top_k) (\<lambda>response w.
               if resp_error response then search_fallback query top_k w
               else let rows = map parse_metadata (resp_data response)
                    in if rows = [] then search_fallback query top_k w
                       else return rows w))
       (\<lambda>e. search_fallback query top_k)"

text \<open>
  \<open>search(query)\<close> with \<open>top_k\<close> left at its default. \<open>top_k\<close> is a natural number
  throughout: the limit of a backend query.
\<close>

definition search_default :: "string \<Rightarrow> row list io" where
  "search_default query = search query TOPK_DEFAULT"

subsection \<open>delete, get_document, count_documents\<close>

definition delete :: "string \<Rightarrow> bool io" where
  "delete did =
     try_except
       (bind (execute (q_delete_eq did)) (\<lambda>response.
          if resp_error response then raise RuntimeError
          else return (length (resp_data response) > 0)))
       (\<lambda>e. return False)"

definition get_document :: "string \<Rightarrow> row option io" where
  "get_document did =
     try_except
       (bind (execute (q_select_eq did)) (\<lambda>response.
          if resp_error response then raise RuntimeError
          else (case resp_data response of
                  [] \<Rightarrow> return None
                | document # _ \<Rightarrow> return (Some (parse_metadata document)))))
       (\<lambda>e. return None)"

definition count_documents :: "nat io" where
  "count_documents =
     try_except
       (bind (execute q_count) (\<lambda>response.
          if resp_error response then raise RuntimeError
          else return (resp_count response)))
       (\<lambda>e. return 0)"

section \<open>Notions used to state the properties\<close>

text \<open>The next request to the backend raises or answers with an error.\<close>

definition next_call_fails :: "world \<Rightarrow> bool" where
  "next_call_fails w = (case db_faults w of [] \<Rightarrow> False | f # fs \<Rightarrow> f \<noteq> DbOk)"

text \<open>Two worlds with the same table, the same backend script and the same services.\<close>

definition same_store :: "world \<Rightarrow> world \<Rightarrow> bool" where
  "same_store w w' =
     (table w' = table w \<and> db_faults w' = db_faults w \<and> float_repr w' = float_repr w \<and>
      stdout_encodes w' = stdout_encodes w \<and> distance w' = distance w \<and>
      embed_model w' = embed_model w)"

subsection \<open>Metadata that JSON represents as it is\<close>





subsection \<open>The fallback stages as the specification words them\<close>

text \<open>
  Section 4.4 of the specification, on a table \<open>t\<close>: stage 1 tries the patterns of up
  to four word-suffixes of the query, stage 2 the pattern \<open>%project <token>%\<close>, stage 3
  keeps the rows among the first 100 whose content contains any query term, stage 4
  returns up to \<open>top_k\<close> arbitrary rows.
\<close>

definition first_nonempty :: "'a list list \<Rightarrow> 'a list option" where
  "first_nonempty xss = (case filter (\<lambda>xs. xs \<noteq> []) xss of [] \<Rightarrow> None | xs # _ \<Rightarrow> Some xs)"

definition matching :: "nat \<Rightarrow> row list \<Rightarrow> string \<Rightarrow> row list" where
  "matching k t pattern = take k (filter (\<lambda>r. ilike pattern (content r)) t)"

definition suffix_patterns :: "string \<Rightarrow> string list" where
  "suffix_patterns query =
     map (\<lambda>i. ''%'' @ str_join ''%'' (drop i (query_words_of query)) @ ''%'')
         [0..<min (length (query_words_of query)) 4]"

text \<open>The token that follows the first \<open>project\<close> of the lower-cased query, if any.\<close>

definition project_token :: "string \<Rightarrow> string option" where
  "project_token query =
     (case str_split_on ''project'' (str_lower query) of
        a # b # _ \<Rightarrow> (case str_split (str_strip b) of [] \<Rightarrow> None | t # _ \<Rightarrow> Some t)
      | _ \<Rightarrow> None)"

definition project_patterns :: "string \<Rightarrow> string list" where
  "project_patterns query =
     (if str_contains ''project'' (str_lower query) then
        (case project_token query of
           Some t \<Rightarrow> if t \<noteq> [] then [''%project '' @ t @ ''%''] else []
         | None \<Rightarrow> [])
      else [])"

definition term_matches :: "string \<Rightarrow> nat \<Rightarrow> row list \<Rightarrow> row list" where
  "term_matches query k t =
     take k (filter (\<lambda>d. \<exists>term \<in> set (query_words_of query).
                            str_contains term (str_lower (content d)))
                    (take 100 t))"

text \<open>
  The policy as the specification states it: the result of the first of the four
  stages that yields any rows.
\<close>

definition four_stage_spec :: "string \<Rightarrow> nat \<Rightarrow> row list \<Rightarrow> row list" where
  "four_stage_spec query k t =
     (case first_nonempty
             (map (matching k t) (suffix_patterns query @ project_patterns query)
              @ [term_matches query k t, take k t]) of
        Some rows \<Rightarrow> rows
      | None \<Rightarrow> [])"

text \<open>
  The policy without stage 4: the first pattern of stages 1 and 2 that matches any
  row, and the result of stage 3 otherwise, empty or not.
\<close>

definition fallback_spec :: "string \<Rightarrow> nat \<Rightarrow> row list \<Rightarrow> row list" where
  "fallback_spec query k t =
     (case first_nonempty (map (matching k t) (suffix_patterns query @ project_patterns query)) of
        Some rows \<Rightarrow> rows
      | None \<Rightarrow> term_matches query k t)"

subsection \<open>Sample worlds\<close>

text \<open>
  A world with concrete services: the embedding of a text is the list of its
  character codes, the distance of two vectors is 0 when they are equal and 1
  otherwise, every float is printed as \<open>0.0\<close> (no float occurs in the samples), and
  \<open>sys.stdout\<close> has the ASCII encoding.
\<close>

definition sample_embed :: "string \<Rightarrow> vector" where
  "sample_embed s = map (\<lambda>c. real (of_char c :: nat)) s"

definition sample_distance :: "vector \<Rightarrow> vector \<Rightarrow> real" where
  "sample_distance a b = (if a = b then 0 else 1)"

definition sample_world :: "row list \<Rightarrow> db_outcome list \<Rightarrow> bool list \<Rightarrow> world" where
  "sample_world t dbf ef =
     \<lparr>table = t, db_faults = dbf, embed_faults = ef, sleeps = [], cache = [],
      embed_model = sample_embed, distance = sample_distance,
      float_repr = (\<lambda>x. ''0.0''), stdout_encodes = (\<lambda>c. False)\<rparr>"

definition stored :: "string \<Rightarrow> string \<Rightarrow> row" where
  "stored did text =
     \<lparr>doc_id = did, content = text, embedding = Some (sample_embed text),
      metadata = PStr ''{}'', score = None\<rparr>"

definition doc :: "string \<Rightarrow> string \<Rightarrow> document" where
  "doc did text = \<lparr>d_doc_id = Some did, d_content = Some text, d_metadata = None\<rparr>"

section \<open>Lemmas about the state monad, the backend and the embedding helpers\<close>

lemma try_except_total:
  assumes "\<And>e w'. \<exists>x w''. h e w' = (Inr x, w'')"
  shows "\<exists>x w'. try_except m h w = (Inr x, w')"
proof (cases "m w")
  case (Pair r w1)
  show ?thesis
  proof (cases r)
    case (Inl e)
    with Pair assms[of e w1] show ?thesis by (auto simp: try_except_def)
  next
    case (Inr x)
    with Pair show ?thesis by (simp add: try_except_def)
  qed
qed

lemma same_store_refl: "same_store w w"
  by (simp add: same_store_def)

lemma same_store_trans: "same_store w w1 \<Longrightarrow> same_store w1 w2 \<Longrightarrow> same_store w w2"
  by (simp add: same_store_def)

lemma embeddings_create_store: "same_store w (snd (embeddings_create xs w))"
  by (simp add: embeddings_create_def same_store_def split: list.splits bool.splits)

lemma sleep_store: "same_store w (snd (sleep n w))"
  by (simp add: sleep_def same_store_def)

lemma create_single_store: "same_store w (snd (create_single tx w))"
proof (cases "embeddings_create [tx] w")
  case (Pair r w1)
  with embeddings_create_store[of w "[tx]"] show ?thesis
    by (cases r) (auto simp: create_single_def bind_def raise_def return_def split: list.splits)
qed

lemma embed_single_loop_store: "same_store w (snd (embed_single_loop tx retries w))"
proof (induction tx retries w rule: embed_single_loop.induct)
  case (1 tx retries w)
  show ?case
  proof (cases "retries < MAX_RETRIES")
    case False
    then show ?thesis by (simp add: same_store_refl)
  next
    case True
    obtain r w1 where c: "create_single tx w = (r, w1)" by (cases "create_single tx w")
    have s1: "same_store w w1" using create_single_store[of w tx] c by simp
    show ?thesis
    proof (cases r)
      case (Inr v)
      with True c s1 show ?thesis by simp
    next
      case (Inl e)
      show ?thesis
      proof (cases "Suc retries \<ge> MAX_RETRIES")
        case True
        with \<open>retries < MAX_RETRIES\<close> c s1 Inl show ?thesis by simp
      next
        case False
        have "same_store (snd (sleep RETRY_DELAY w1))
                (snd (embed_single_loop tx (Suc retries) (snd (sleep RETRY_DELAY w1))))"
          using "1.IH"[OF \<open>retries < MAX_RETRIES\<close> c[symmetric] Inl False] .
        then have "same_store w (snd (embed_single_loop tx (Suc retries) (snd (sleep RETRY_DELAY w1))))"
          using s1 sleep_store[of w1 RETRY_DELAY] same_store_trans by blast
        with \<open>retries < MAX_RETRIES\<close> False c Inl show ?thesis
          by (subst embed_single_loop.simps) simp
      qed
    qed
  qed
qed

lemma embed_single_store: "same_store w (snd (embed_single tx w))"
proof (cases "map_of (cache w) tx")
  case (Some v)
  then show ?thesis by (simp add: embed_single_def same_store_def)
next
  case None
  have u: "same_store w (snd (embed_single_uncached tx w))"
    using embed_single_loop_store[of w tx 0]
    by (simp add: embed_single_uncached_def raise_def same_store_refl)
  show ?thesis
  proof (cases "embed_single_uncached tx w")
    case (Pair r w1)
    with None u show ?thesis
      by (cases r) (simp_all add: embed_single_def same_store_def)
  qed
qed

text \<open>
  The exit of the retry loops by their \<open>while\<close> test is never taken: each round
  returns, raises, or goes on with fewer than \<open>_MAX_RETRIES\<close> failures.
\<close>

lemma create_single_error:
  "fst (create_single tx w) \<noteq> Inl LoopExit"
  by (auto simp: create_single_def bind_def embeddings_create_def raise_def return_def
           split: list.splits bool.splits)

lemma embed_single_loop_no_exit:
  "retries < MAX_RETRIES \<Longrightarrow> fst (embed_single_loop tx retries w) \<noteq> Inl LoopExit"
proof (induction tx retries w rule: embed_single_loop.induct)
  case (1 tx retries w)
  obtain r w1 where c: "create_single tx w = (r, w1)" by (cases "create_single tx w")
  show ?case
  proof (cases r)
    case (Inr v)
    with "1.prems" c show ?thesis by (subst embed_single_loop.simps) simp
  next
    case (Inl e)
    have ne: "e \<noteq> LoopExit" using create_single_error[of tx w] c Inl by simp
    show ?thesis
    proof (cases "Suc retries \<ge> MAX_RETRIES")
      case True
      with "1.prems" c Inl ne show ?thesis by (subst embed_single_loop.simps) simp
    next
      case False
      then have "Suc retries < MAX_RETRIES" by simp
      with "1.IH"[OF "1.prems" c[symmetric] Inl False]
      have "fst (embed_single_loop tx (Suc retries) (snd (sleep RETRY_DELAY w1))) \<noteq> Inl LoopExit" .
      with "1.prems" c Inl False show ?thesis by (subst embed_single_loop.simps) simp
    qed
  qed
qed

lemma embed_batch_loop_no_exit:
  "retries < MAX_RETRIES \<Longrightarrow> fst (embed_batch_loop txs retries w) \<noteq> Inl LoopExit"
proof (induction txs retries w rule: embed_batch_loop.induct)
  case (1 txs retries w)
  obtain r w1 where c: "embeddings_create txs w = (r, w1)" by (cases "embeddings_create txs w")
  show ?case
  proof (cases r)
    case (Inr v)
    with "1.prems" c show ?thesis by (subst embed_batch_loop.simps) simp
  next
    case (Inl e)
    have ne: "e \<noteq> LoopExit"
      using c Inl by (auto simp: embeddings_create_def split: list.splits bool.splits)
    show ?thesis
    proof (cases "Suc retries \<ge> MAX_RETRIES")
      case True
      with "1.prems" c Inl ne show ?thesis by (subst embed_batch_loop.simps) simp
    next
      case False
      then have "Suc retries < MAX_RETRIES" by simp
      with "1.IH"[OF "1.prems" c[symmetric] Inl False]
      have "fst (embed_batch_loop txs (Suc retries)
                   (snd (sleep (RETRY_DELAY * Suc retries) w1))) \<noteq> Inl LoopExit" .
      with "1.prems" c Inl False show ?thesis by (subst embed_batch_loop.simps) simp
    qed
  qed
qed

lemma embed_single_no_exit: "fst (embed_single tx w) \<noteq> Inl LoopExit"
proof (cases "map_of (cache w) tx")
  case (Some v)
  then show ?thesis by (simp add: embed_single_def)
next
  case None
  have "fst (embed_single_uncached tx w) \<noteq> Inl LoopExit"
    using embed_single_loop_no_exit[of 0 tx w]
    by (simp add: embed_single_uncached_def raise_def MAX_RETRIES_def)
  with None show ?thesis
    by (cases "embed_single_uncached tx w") (auto simp: embed_single_def split: sum.splits)
qed

lemma embed_batch_no_exit: "fst (embed_batch txs w) \<noteq> Inl LoopExit"
  using embed_batch_loop_no_exit[of 0 "filter (\<lambda>t. str_strip t \<noteq> []) txs" w]
  by (simp add: embed_batch_def return_def Let_def MAX_RETRIES_def)

lemma next_call_fails_store: "same_store w w' \<Longrightarrow> next_call_fails w' = next_call_fails w"
  by (simp add: same_store_def next_call_fails_def)

lemma execute_fails:
  "next_call_fails w \<Longrightarrow>
     (\<exists>w'. execute q w = (Inl TransportError, w')) \<or>
     (\<exists>w'. execute q w = (Inr error_response, w'))"
  by (auto simp: next_call_fails_def execute_def split: list.splits db_outcome.splits)

lemma execute_raises:
  "db_faults w = DbRaise # fs \<Longrightarrow> execute q w = (Inl TransportError, w\<lparr>db_faults := fs\<rparr>)"
  by (simp add: execute_def)


lemma execute_env:
  "stdout_encodes (snd (execute q w)) = stdout_encodes w"
  "float_repr (snd (execute q w)) = float_repr w"
  by (auto simp: execute_def split: list.splits db_outcome.splits prod.splits)

lemma can_print_cong: "stdout_encodes w' = stdout_encodes w \<Longrightarrow> can_print w' s = can_print w s"
  by (simp add: can_print_def encodable_def[abs_def])

lemma execute_can_print: "can_print (snd (execute q w)) s = can_print w s"
  by (rule can_print_cong) (rule execute_env)

lemma can_print_append: "can_print w (s @ t) = (can_print w s \<and> can_print w t)"
  by (simp add: can_print_def)

lemma print_ok: "can_print w s \<Longrightarrow> print s w = (Inr (), w)"
  by (simp add: print_def)

lemma print_fails: "\<not> can_print w s \<Longrightarrow> print s w = (Inl UnicodeEncodeError, w)"
  by (simp add: print_def)


lemma execute_read:
  assumes "db_faults w = []" and "snd (q (table w)) = table w"
  shows "execute q w = (Inr (fst (q (table w))), w)"
  using assms by (cases "q (table w)") (simp add: execute_def)

lemma execute_ilike:
  "db_faults w = [] \<Longrightarrow>
   execute (q_select_ilike p k) w = (Inr (ok_response (matching k (table w) p)), w)"
  by (simp add: execute_read q_select_ilike_def matching_def)

lemma execute_limit:
  assumes "execute q w = (Inr response, w')" and "\<And>t. length (resp_data (fst (q t))) \<le> k"
  shows "length (resp_data response) \<le> k"
proof -
  have "response = error_response \<or> response = fst (q (table w))"
    using assms(1)
    by (auto simp: execute_def split: list.splits db_outcome.splits prod.splits)
  then show ?thesis
    using assms(2)[of "table w"] by (auto simp: error_response_def)
qed

lemma ilike_limit: "length (resp_data (fst (q_select_ilike p k t))) \<le> k"
  by (simp add: q_select_ilike_def ok_response_def)

lemma select_limit: "length (resp_data (fst (q_select_limit k t))) \<le> k"
  by (simp add: q_select_limit_def ok_response_def)

lemma similarity_limit: "length (resp_data (fst (q_similarity d q k t))) \<le> k"
  by (simp add: q_similarity_def ok_response_def)


section \<open>Lemmas about the json module\<close>

lemma code_char_of: "code (char_of n) = n mod 256"
  by (simp add: code_def)







lemma is_digit_char_of: "(n::nat) < 10 \<Longrightarrow> is_digit (char_of (48 + n))"
  by (simp add: is_digit_def code_char_of)

lemma digits_all: "list_all is_digit (digits n)"
proof (induction n rule: digits.induct)
  case (1 n)
  show ?case
  proof (cases "n < 10")
    case True
    then show ?thesis by (subst digits.simps) (simp add: is_digit_char_of)
  next
    case False
    with 1 show ?thesis by (subst digits.simps) (simp add: is_digit_char_of)
  qed
qed

lemma digits_nonempty: "digits n \<noteq> []"
  by (subst digits.simps) simp


































text \<open>
  The parser on texts that \<open>json.dumps\<close> does not produce: a leading zero, a trailing
  comma and a raw control character are refused, a repeated key takes its last
  value, and numbers with a fraction or an exponent are floats.
\<close>

lemma json_loads_examples:
  "json_loads ''01'' = None
   \<and> json_loads ''[1,]'' = None
   \<and> json_loads ([CHR 0x22, CHR 0x0A, CHR 0x22]) = None
   \<and> json_loads ([CHR ''{'', CHR 0x22, CHR ''a'', CHR 0x22] @ '': 1, ''
                   @ [CHR 0x22, CHR ''b'', CHR 0x22] @ '': 2, ''
                   @ [CHR 0x22, CHR ''a'', CHR 0x22] @ '': 3}'')
       = Some (PDict [(KStr ''a'', PInt 3), (KStr ''b'', PInt 2)])
   \<and> json_loads ''[1.5, 2e3, -25E-1, NaN, -Infinity, -0]''
       = Some (PList [PFloat (Finite (3 / 2)), PFloat (Finite 2000), PFloat (Finite (- 5 / 2)),
                      PFloat NaN, PFloat NegInf, PInt 0])
   \<and> json_loads '' [ ] '' = Some (PList [])"
  by code_simp

section \<open>Lemmas about strings\<close>

lemma str_contains_hd: "str_contains sub s \<Longrightarrow> sub \<noteq> [] \<Longrightarrow> hd sub \<in> set s"
proof (induction s)
  case Nil
  then show ?case by simp
next
  case (Cons c cs)
  show ?case
  proof (cases "take (length sub) (c # cs) = sub")
    case True
    with Cons.prems(2) have "hd sub = c" by (cases sub) auto
    then show ?thesis by simp
  next
    case False
    with Cons show ?thesis by simp
  qed
qed

lemma str_join_empty_Cons: "str_join [] (x # xs) = x @ str_join [] xs"
  by (cases xs) simp_all

lemma str_split_on_single:
  "str_join [] (str_split_on_aux [c] acc s) = rev acc @ filter (\<lambda>x. x \<noteq> c) s"
  by (induction s arbitrary: acc) (auto simp: str_join_empty_Cons)

lemma str_replace_single: "str_replace [c] [] s = filter (\<lambda>x. x \<noteq> c) s"
  by (simp add: str_replace_def str_split_on_def str_split_on_single)

lemma str_split_aux_nonempty:
  "acc \<noteq> [] \<or> (\<exists>x \<in> set s. \<not> isspace x) \<Longrightarrow> str_split_aux acc s \<noteq> []"
  by (induction s arbitrary: acc) auto

lemma project_has_words:
  assumes "str_contains ''project'' (str_lower query)"
  shows "query_words_of query \<noteq> []"
proof -
  have "CHR ''p'' \<in> set (str_lower query)"
    using str_contains_hd[OF assms] by simp
  then have "CHR ''p'' \<in> set (str_replace ''.'' [] (str_replace ''?'' [] (str_lower query)))"
    by (simp add: str_replace_single)
  moreover have "\<not> isspace CHR ''p''" by (simp add: isspace_def)
  ultimately show ?thesis
    unfolding query_words_of_def str_split_def
    by (intro str_split_aux_nonempty) blast
qed

lemma can_print_iff: "can_print w s \<longleftrightarrow> (\<forall>c \<in> set s. encodable w c)"
  by (simp add: can_print_def list_all_iff)

lemma can_print_subset: "can_print w s \<Longrightarrow> set t \<subseteq> set s \<Longrightarrow> can_print w t"
  by (auto simp: can_print_iff)

lemma can_print_digits: "can_print w (digits n)"
  using digits_all[of n]
  by (auto simp: can_print_iff list_all_iff is_digit_def encodable_def)

lemma can_print_ascii: "list_all (\<lambda>c. code c < 128) s \<Longrightarrow> can_print w s"
  by (auto simp: can_print_def encodable_def list_all_iff)

lemma can_print_using:
  "can_print w (''[supabase_search] Using fallback search for: '' @ query) = can_print w query"
proof -
  have "list_all (\<lambda>c. code c < 128) ''[supabase_search] Using fallback search for: ''"
    by code_simp
  then have "can_print w ''[supabase_search] Using fallback search for: ''"
    by (rule can_print_ascii)
  then show ?thesis by (simp only: can_print_append simp_thms)
qed

lemma print_using_ok: "can_print w query \<Longrightarrow> print_using query w = (Inr (), w)"
proof -
  assume "can_print w query"
  then have "can_print w (''[supabase_search] Using fallback search for: '' @ query)"
    using can_print_using[of w query] by blast
  then show ?thesis unfolding print_using_def by (rule print_ok)
qed

lemma print_using_fails:
  "\<not> can_print w query \<Longrightarrow> print_using query w = (Inl UnicodeEncodeError, w)"
proof -
  assume "\<not> can_print w query"
  then have "\<not> can_print w (''[supabase_search] Using fallback search for: '' @ query)"
    using can_print_using[of w query] by blast
  then show ?thesis unfolding print_using_def by (rule print_fails)
qed

lemma print_found_ok: "can_print w search_term \<Longrightarrow> print_found n search_term w = (Inr (), w)"
proof -
  assume a: "can_print w search_term"
  have "list_all (\<lambda>c. code c < 128) ''[supabase_search] Found ''"
    and "list_all (\<lambda>c. code c < 128) '' results with fallback (term: ''"
    and "list_all (\<lambda>c. code c < 128) '')''"
    by code_simp+
  then have l: "can_print w ''[supabase_search] Found ''"
    "can_print w '' results with fallback (term: ''" "can_print w '')''"
    by (simp_all add: can_print_ascii)
  have "can_print w (''[supabase_search] Found '' @ digits n
                      @ '' results with fallback (term: '' @ search_term @ '')'')"
    using a can_print_digits[of w n] l by (simp only: can_print_append simp_thms)
  then show ?thesis by (simp only: print_found_def print_ok)
qed

lemma print_found_world: "snd (print_found n search_term w) = w"
  by (simp add: print_found_def print_def)

lemma str_join_chars: "set (str_join sep xs) \<subseteq> set sep \<union> \<Union> (set ` set xs)"
  by (induction sep xs rule: str_join.induct) auto

lemma str_split_aux_chars:
  "word \<in> set (str_split_aux acc s) \<Longrightarrow> set word \<subseteq> set acc \<union> set s"
proof (induction s arbitrary: acc)
  case Nil
  then show ?case by (auto split: if_splits)
next
  case (Cons a s)
  show ?case
    using Cons.IH[of "[]"] Cons.IH[of "a # acc"] Cons.prems
    by (auto split: if_splits)
qed

lemma query_words_chars:
  assumes "word \<in> set (query_words_of query)"
  shows "set word \<subseteq> set (str_lower query)"
proof -
  have "set word \<subseteq> set (str_replace ''.'' [] (str_replace ''?'' [] (str_lower query)))"
    using assms str_split_aux_chars[of word "[]"]
    by (simp add: query_words_of_def str_split_def)
  then show ?thesis by (auto simp: str_replace_single)
qed

lemma can_print_pattern:
  assumes "can_print w (str_lower query)"
  shows "can_print w (''%'' @ str_join ''%'' (drop j (query_words_of query)) @ ''%'')"
proof -
  have p: "can_print w ''%''"
    by (rule can_print_ascii) code_simp
  have "encodable w c" if c: "c \<in> set (str_join ''%'' (drop j (query_words_of query)))" for c
  proof -
    from c str_join_chars[of "''%''" "drop j (query_words_of query)"]
    have "c \<in> set ''%'' \<or> (\<exists>word \<in> set (drop j (query_words_of query)). c \<in> set word)"
      by blast
    then show ?thesis
    proof
      assume "c \<in> set ''%''"
      with p show ?thesis by (simp only: can_print_iff)
    next
      assume "\<exists>word \<in> set (drop j (query_words_of query)). c \<in> set word"
      then obtain word where wd: "word \<in> set (drop j (query_words_of query))" "c \<in> set word"
        by blast
      from wd(1) have "word \<in> set (query_words_of query)" by (rule in_set_dropD)
      then have "set word \<subseteq> set (str_lower query)" by (rule query_words_chars)
      with wd(2) have "c \<in> set (str_lower query)" by blast
      with assms show ?thesis by (simp only: can_print_iff)
    qed
  qed
  then have "can_print w (str_join ''%'' (drop j (query_words_of query)))"
    by (simp only: can_print_iff) blast
  with p show ?thesis by (simp only: can_print_append simp_thms)
qed

section \<open>Lemmas about the lexical fallback\<close>

lemma search_fallback_raises:
  "\<not> can_print w query \<Longrightarrow> search_fallback query top_k w = (Inl UnicodeEncodeError, w)"
  by (simp add: search_fallback_def bind_def print_using_fails)

lemma search_fallback_total:
  assumes "can_print w query"
  shows "\<exists>rows w'. search_fallback query top_k w = (Inr rows, w')"
proof -
  have "\<exists>rows w'. try_except (fallback_body query top_k)
          (\<lambda>e. try_except
                  (bind (execute (q_select_limit top_k)) (\<lambda>response. return (resp_data response)))
                  (\<lambda>e'. return [])) w = (Inr rows, w')"
    by (rule try_except_total, rule try_except_total) (simp add: return_def)
  then show ?thesis
    using print_using_ok[OF assms] by (simp add: search_fallback_def bind_def)
qed

lemma search_fallback_retry:
  "try_except (search_fallback query top_k) (\<lambda>e. search_fallback query top_k) w
     = search_fallback query top_k w"
proof (cases "can_print w query")
  case True
  then obtain rows w' where "search_fallback query top_k w = (Inr rows, w')"
    using search_fallback_total by blast
  then show ?thesis by (simp add: try_except_def)
next
  case False
  then show ?thesis by (simp add: try_except_def search_fallback_raises)
qed

lemma first_nonempty_Cons:
  "first_nonempty (xs # xss) = (if xs \<noteq> [] then Some xs else first_nonempty xss)"
  by (simp add: first_nonempty_def)

lemma first_nonempty_append:
  "first_nonempty (xss @ yss) =
     (case first_nonempty xss of Some r \<Rightarrow> Some r | None \<Rightarrow> first_nonempty yss)"
  by (induction xss) (simp_all add: first_nonempty_Cons, simp add: first_nonempty_def)

lemma narrowing_loop_spec:
  assumes "db_faults w = []"
    and "\<And>j. can_print w (''%'' @ str_join ''%'' (drop j query_words) @ ''%'')"
  shows "narrowing_loop query_words i k w =
     (Inr (first_nonempty
        (map (\<lambda>j. matching k (table w) (''%'' @ str_join ''%'' (drop j query_words) @ ''%''))
             [i..<min (length query_words) 4])), w)"
  using assms
proof (induction query_words i k w rule: narrowing_loop.induct)
  case (1 query_words i top_k w)
  let ?p = "''%'' @ str_join ''%'' (drop i query_words) @ ''%''"
  show ?case
  proof (cases "i < length query_words \<and> \<not> 3 < i")
    case False
    then have e: "[i..<min (length query_words) 4] = []" by auto
    from False show ?thesis
      unfolding e by (subst narrowing_loop.simps) (auto simp: first_nonempty_def)
  next
    case True
    then have u: "[i..<min (length query_words) 4] = i # [Suc i..<min (length query_words) 4]"
      by (simp add: upt_conv_Cons)
    have x: "execute (q_select_ilike ?p top_k) w = (Inr (ok_response (matching top_k (table w) ?p)), w)"
      using "1.prems"(1) by (rule execute_ilike)
    have pf: "print_found (length (matching top_k (table w) ?p)) ?p w = (Inr (), w)"
      using "1.prems"(2)[of i] by (rule print_found_ok)
    show ?thesis
    proof (cases "matching top_k (table w) ?p \<noteq> []")
      case nonempty: True
      with True x u pf show ?thesis
        by (subst narrowing_loop.simps) (simp add: first_nonempty_Cons ok_response_def)
    next
      case empty: False
      have "narrowing_loop query_words (Suc i) top_k w =
              (Inr (first_nonempty
                 (map (\<lambda>j. matching top_k (table w) (''%'' @ str_join ''%'' (drop j query_words) @ ''%''))
                      [Suc i..<min (length query_words) 4])), w)"
        using "1.IH"[OF True x[symmetric] refl _ "1.prems"] empty by (simp add: ok_response_def)
      with True x u empty show ?thesis
        by (subst narrowing_loop.simps) (simp add: first_nonempty_Cons ok_response_def)
    qed
  qed
qed

lemma client_filter_take:
  "take k (client_filter ts k docs acc) =
   take k (acc @ filter (\<lambda>d. \<exists>t \<in> set ts. str_contains t (str_lower (content d))) docs)"
proof (induction docs arbitrary: acc)
  case Nil
  then show ?case by simp
next
  case (Cons d docs)
  then show ?case by (auto simp: list_ex_iff take_Cons')
qed

lemma project_stage_spec:
  assumes "db_faults w = []"
    and "str_contains ''project'' (str_lower query) \<longrightarrow> project_token query \<noteq> None"
  shows "project_stage query k w =
           (Inr (first_nonempty (map (matching k (table w)) (project_patterns query))), w)"
proof (cases "str_contains ''project'' (str_lower query)")
  case False
  then show ?thesis
    by (simp add: project_stage_def project_patterns_def return_def first_nonempty_def)
next
  case True
  with assms(2) obtain t where tok: "project_token query = Some t" by auto
  then obtain a b rest toks where
    sp: "str_split_on ''project'' (str_lower query) = a # b # rest"
    and st: "str_split (str_strip b) = t # toks"
    by (auto simp: project_token_def split: list.splits)
  show ?thesis
  proof (cases "t = []")
    case True
    with \<open>str_contains ''project'' (str_lower query)\<close> sp st tok show ?thesis
      by (simp add: project_stage_def project_patterns_def return_def first_nonempty_def)
  next
    case False
    with \<open>str_contains ''project'' (str_lower query)\<close> sp st tok
      execute_ilike[OF assms(1), of "''%project '' @ t @ ''%''" k]
    show ?thesis
      by (simp add: project_stage_def project_patterns_def return_def bind_def
                    first_nonempty_def ok_response_def)
  qed
qed

lemma fallback_chain:
  assumes "db_faults w = []"
    and "can_print w query"
    and "can_print w (str_lower query)"
    and "str_contains ''project'' (str_lower query) \<longrightarrow> project_token query \<noteq> None"
  shows "fst (search_fallback query k w) = Inr (fallback_spec query k (table w))"
proof -
  let ?t = "table w"
  have n: "narrowing_loop (query_words_of query) 0 k w =
             (Inr (first_nonempty (map (matching k ?t) (suffix_patterns query))), w)"
    using narrowing_loop_spec[OF assms(1), of "query_words_of query" 0 k]
      can_print_pattern[OF assms(3)]
    by (simp add: suffix_patterns_def comp_def)
  have p: "project_stage query k w =
             (Inr (first_nonempty (map (matching k ?t) (project_patterns query))), w)"
    using assms(1,4) by (rule project_stage_spec)
  have l: "execute (q_select_limit 100) w = (Inr (ok_response (take 100 ?t)), w)"
    using assms(1) by (simp add: execute_read q_select_limit_def)
  have c: "take k (client_filter (remdups (query_words_of query)) k (take 100 ?t) []) =
           term_matches query k ?t"
    by (simp add: client_filter_take term_matches_def)
  have e: "take 100 ?t = [] \<Longrightarrow> term_matches query k ?t = []"
    by (simp add: term_matches_def)
  have "fallback_body query k w = (Inr (fallback_spec query k ?t), w)"
    using n p l c e
    by (auto simp: fallback_body_def bind_def return_def fallback_spec_def first_nonempty_append
                   ok_response_def
             split: option.splits)
  then show ?thesis
    using print_using_ok[OF assms(2)] by (simp add: search_fallback_def try_except_def bind_def)
qed

lemma fallback_last_resort:
  assumes "db_faults w = [DbRaise]" and "can_print w query"
  shows "fst (search_fallback query k w) = Inr (take k (table w))"
proof -
  let ?w1 = "w\<lparr>db_faults := []\<rparr>"
  have body: "fallback_body query k w = (Inl TransportError, ?w1)"
  proof (cases "query_words_of query = []")
    case False
    then have "narrowing_loop (query_words_of query) 0 k w = (Inl TransportError, ?w1)"
      using execute_raises[OF assms(1)] by (subst narrowing_loop.simps) simp
    then show ?thesis by (simp add: fallback_body_def bind_def)
  next
    case True
    then have n: "narrowing_loop (query_words_of query) 0 k w = (Inr None, w)"
      by (subst narrowing_loop.simps) simp
    have "\<not> str_contains ''project'' (str_lower query)"
      using True project_has_words by blast
    then have p: "project_stage query k w = (Inr None, w)"
      by (simp add: project_stage_def return_def)
    show ?thesis
      using n p execute_raises[OF assms(1)]
      by (simp add: fallback_body_def bind_def)
  qed
  have "execute (q_select_limit k) ?w1 = (Inr (ok_response (take k (table w))), ?w1)"
    using execute_read[of ?w1 "q_select_limit k"] by (simp add: q_select_limit_def)
  with body show ?thesis
    using print_using_ok[OF assms(2)]
    by (simp add: search_fallback_def try_except_def bind_def return_def ok_response_def)
qed

lemma narrowing_loop_limit:
  "narrowing_loop query_words i k w = (Inr (Some rows), w') \<Longrightarrow> length rows \<le> k"
proof (induction query_words i k w rule: narrowing_loop.induct)
  case (1 query_words i top_k w)
  let ?p = "''%'' @ str_join ''%'' (drop i query_words) @ ''%''"
  let ?q = "q_select_ilike ?p top_k"
  from "1.prems" have c: "i < length query_words \<and> \<not> 3 < i"
    by (subst (asm) narrowing_loop.simps) (auto split: if_splits)
  obtain r w1 where x: "execute ?q w = (r, w1)" by (cases "execute ?q w")
  show ?case
  proof (cases r)
    case (Inl e)
    with "1.prems" c x show ?thesis
      by (subst (asm) narrowing_loop.simps) simp
  next
    case (Inr response)
    have lim: "length (resp_data response) \<le> top_k"
      using execute_limit[OF x[unfolded Inr], of top_k] ilike_limit by blast
    show ?thesis
    proof (cases "resp_data response \<noteq> []")
      case True
      with "1.prems" c x Inr lim show ?thesis
        by (subst (asm) narrowing_loop.simps) (auto split: prod.splits sum.splits)
    next
      case False
      with "1.prems" c x Inr have "narrowing_loop query_words (Suc i) top_k w1 = (Inr (Some rows), w')"
        by (subst (asm) narrowing_loop.simps) auto
      with "1.IH"[OF c x[symmetric] Inr] False show ?thesis by simp
    qed
  qed
qed

lemma project_stage_limit:
  assumes "project_stage query k w = (Inr (Some rows), w')"
  shows "length rows \<le> k"
proof -
  from assms obtain p response where
    "execute (q_select_ilike p k) w = (Inr response, w')" "rows = resp_data response"
    by (auto simp: project_stage_def bind_def raise_def return_def
             split: if_splits list.splits sum.splits prod.splits)
  then show ?thesis
    using execute_limit[of "q_select_ilike p k" w response w' k] ilike_limit by blast
qed

lemma fallback_body_limit:
  assumes "fallback_body query k w = (Inr rows, w')"
  shows "length rows \<le> k"
proof -
  obtain r1 w1 where n: "narrowing_loop (query_words_of query) 0 k w = (r1, w1)"
    by (cases "narrowing_loop (query_words_of query) 0 k w")
  show ?thesis
  proof (cases r1)
    case (Inl e)
    with assms n show ?thesis by (simp add: fallback_body_def bind_def)
  next
    case (Inr found1)
    show ?thesis
    proof (cases found1)
      case (Some rows1)
      with assms n Inr have "rows = rows1" by (simp add: fallback_body_def bind_def return_def)
      with narrowing_loop_limit n Inr Some show ?thesis by blast
    next
      case None
      obtain r2 w2 where p: "project_stage query k w1 = (r2, w2)"
        by (cases "project_stage query k w1")
      show ?thesis
      proof (cases r2)
        case (Inl e)
        with assms n Inr None p show ?thesis by (simp add: fallback_body_def bind_def)
      next
        case (Inr found2)
        show ?thesis
        proof (cases found2)
          case (Some rows2)
          with assms n \<open>r1 = Inr found1\<close> None p Inr have "rows = rows2"
            by (simp add: fallback_body_def bind_def return_def)
          with project_stage_limit p Inr Some show ?thesis by blast
        next
          case None
          with assms n \<open>r1 = Inr found1\<close> \<open>found1 = None\<close> p Inr show ?thesis
            by (auto simp: fallback_body_def bind_def return_def split: sum.splits prod.splits if_splits)
        qed
      qed
    qed
  qed
qed

lemma search_fallback_limit:
  assumes "search_fallback query k w = (Inr rows, w')"
  shows "length rows \<le> k"
proof -
  have pr: "can_print w query"
    using assms search_fallback_raises[of w query k] by (cases "can_print w query") auto
  have t: "try_except (fallback_body query k)
             (\<lambda>e. try_except
                     (bind (execute (q_select_limit k)) (\<lambda>response. return (resp_data response)))
                     (\<lambda>e'. return [])) w = (Inr rows, w')"
    using assms print_using_ok[OF pr] by (simp add: search_fallback_def bind_def)
  show ?thesis
  proof (cases "fallback_body query k w")
    case (Pair r w1)
    show ?thesis
    proof (cases r)
      case (Inr rows1)
      with t Pair fallback_body_limit show ?thesis
        by (auto simp: try_except_def)
    next
      case (Inl e)
      obtain r2 w2 where x: "execute (q_select_limit k) w1 = (r2, w2)"
        by (cases "execute (q_select_limit k) w1")
      show ?thesis
      proof (cases r2)
        case (Inl e2)
        with t Pair \<open>r = Inl e\<close> x show ?thesis
          by (auto simp: try_except_def bind_def return_def)
      next
        case (Inr response)
        with t Pair \<open>r = Inl e\<close> x have "rows = resp_data response"
          by (auto simp: try_except_def bind_def return_def)
        with execute_limit[OF x[unfolded Inr], of k] select_limit show ?thesis by blast
      qed
    qed
  qed
qed

lemma vector_stage_limit:
  assumes "vector_stage query k w = (Inr response, w')"
  shows "length (resp_data response) \<le> k"
proof -
  from assms obtain q_emb w1 where
    "execute (q_similarity (distance w1) q_emb k) w1 = (Inr response, w')"
    by (auto simp: vector_stage_def bind_def split: sum.splits prod.splits)
  then show ?thesis
    using execute_limit[of _ w1 response w' k] similarity_limit by blast
qed

lemma search_limit:
  assumes "search query k w = (Inr rows, w')"
  shows "length rows \<le> k"
proof (cases "str_strip query = []")
  case True
  with assms search_fallback_limit show ?thesis
    by (auto simp: search_def try_except_def raise_def)
next
  case False
  obtain r w1 where v: "vector_stage query k w = (r, w1)" by (cases "vector_stage query k w")
  show ?thesis
  proof (cases r)
    case (Inl e)
    with assms False v search_fallback_limit show ?thesis
      by (auto simp: search_def try_except_def bind_def)
  next
    case (Inr response)
    have lim: "length (resp_data response) \<le> k"
      using vector_stage_limit v Inr by blast
    show ?thesis
    proof (cases "resp_error response \<or> resp_data response = []")
      case True
      have "search query k w = try_except (search_fallback query k) (\<lambda>e. search_fallback query k) w1"
        using False v Inr True
        by (auto simp: search_def try_except_def bind_def Let_def)
      then have "search_fallback query k w1 = (Inr rows, w')"
        using assms by (simp add: search_fallback_retry)
      then show ?thesis by (rule search_fallback_limit)
    next
      case no: False
      with assms False v Inr lim show ?thesis
        by (auto simp: search_def try_except_def bind_def return_def Let_def)
    qed
  qed
qed

section \<open>Lemmas about failing backend calls\<close>

lemma delete_masks: "next_call_fails w \<Longrightarrow> fst (delete did w) = Inr False"
  using execute_fails[of w "q_delete_eq did"]
  by (auto simp: delete_def try_except_def bind_def raise_def return_def error_response_def)

lemma count_masks: "next_call_fails w \<Longrightarrow> fst (count_documents w) = Inr 0"
  using execute_fails[of w "q_count"]
  by (auto simp: count_documents_def try_except_def bind_def raise_def return_def error_response_def)

lemma get_masks: "next_call_fails w \<Longrightarrow> fst (get_document did w) = Inr None"
  using execute_fails[of w "q_select_eq did"]
  by (auto simp: get_document_def try_except_def bind_def raise_def return_def error_response_def)

lemma upsert_raises:
  assumes "next_call_fails w"
  shows "\<exists>e. fst (upsert did tx meta w) = Inl e"
proof (cases "str_strip tx = [] \<or> did = []")
  case True
  then show ?thesis
    by (auto simp: upsert_def try_except_def raise_def)
next
  case False
  obtain r w1 where e: "embed_single tx w = (r, w1)" by (cases "embed_single tx w")
  have f: "next_call_fails w1"
    using embed_single_store[of w tx] e assms next_call_fails_store by auto
  show ?thesis
  proof (cases r)
    case (Inl err)
    with False e show ?thesis
      by (simp add: upsert_def try_except_def bind_def raise_def)
  next
    case (Inr emb)
    show ?thesis
    proof (cases "dumps_metadata (float_repr w1) meta")
      case (Inl err)
      with False e \<open>r = Inr emb\<close> show ?thesis
        by (simp add: upsert_def try_except_def bind_def raise_def)
    next
      case (Inr m)
      let ?q = "q_upsert [\<lparr>doc_id = did, content = tx, embedding = Some emb,
                   metadata = m, score = None\<rparr>]"
      from execute_fails[OF f, of ?q] False e \<open>r = Inr emb\<close> Inr show ?thesis
        by (auto simp: upsert_def try_except_def bind_def raise_def error_response_def)
    qed
  qed
qed

lemma vector_stage_stdout:
  "stdout_encodes (snd (vector_stage query k w)) = stdout_encodes w"
proof (cases "embed_single query w")
  case (Pair r w1)
  have s: "stdout_encodes w1 = stdout_encodes w"
    using embed_single_store[of w query] Pair by (simp add: same_store_def)
  show ?thesis
  proof (cases r)
    case (Inl e)
    with Pair s show ?thesis by (simp add: vector_stage_def bind_def)
  next
    case (Inr q_emb)
    with Pair s execute_env(1)[of "q_similarity (distance w1) q_emb k" w1] show ?thesis
      by (simp add: vector_stage_def bind_def)
  qed
qed

text \<open>
  When \<open>sys.stdout\<close> can encode the query, \<open>search\<close> returns a list whatever the
  embedding service and the backend do.
\<close>

lemma search_total_if_printable:
  assumes "can_print w query"
  shows "\<exists>rows. fst (search query top_k w) = Inr rows"
proof (cases "str_strip query = []")
  case True
  obtain rows w' where "search_fallback query top_k w = (Inr rows, w')"
    using search_fallback_total[OF assms] by blast
  with True show ?thesis by (simp add: search_def try_except_def raise_def)
next
  case False
  obtain r w1 where v: "vector_stage query top_k w = (r, w1)"
    by (cases "vector_stage query top_k w")
  have "can_print w1 query"
    using assms vector_stage_stdout[of query top_k w] v can_print_cong[of w1 w query] by simp
  then obtain rows w' where fb: "search_fallback query top_k w1 = (Inr rows, w')"
    using search_fallback_total by blast
  show ?thesis
  proof (cases r)
    case (Inl e)
    with False v fb show ?thesis by (simp add: search_def try_except_def bind_def)
  next
    case (Inr response)
    with False v fb show ?thesis
      by (auto simp: search_def try_except_def bind_def return_def Let_def)
  qed
qed

section \<open>The claims\<close>

subsection \<open>C1: batch upsert with empty documents\<close>

text \<open>
  C1 says that a batch of N documents, M of them with empty content, writes and
  returns the N - M others, each with the embedding of its own content. The loop of
  \<open>upsert_batch\<close> indexes \<open>embeddings\<close>, which holds one vector per non-empty
  content, by the position of the document in the whole batch. On the batch
  \<open>d1\<close> (empty), \<open>d2\<close> (content \<open>a\<close>), \<open>d3\<close> (content \<open>b\<close>) the code writes and returns
  one row only, \<open>d2\<close>, with the embedding of \<open>b\<close>, and the table holds one row.
\<close>

theorem upsert_batch_misaligned:
  "fst (upsert_batch [doc ''d1'' [], doc ''d2'' ''a'', doc ''d3'' ''b''] (sample_world [] [] []))
     = Inr [\<lparr>doc_id = ''d2'', content = ''a'', embedding = Some (sample_embed ''b''),
             metadata = PStr ''{}'', score = None\<rparr>]
   \<and> map doc_id (table (snd (upsert_batch [doc ''d1'' [], doc ''d2'' ''a'', doc ''d3'' ''b'']
                                (sample_world [] [] []))))
     = [''d2'']
   \<and> sample_embed ''a'' \<noteq> sample_embed ''b''"
  by code_simp

subsection \<open>C2: the stages of the lexical fallback\<close>

text \<open>
  As stated, C2 makes \<open>search_fallback\<close> return the result of the first of four
  stages that yields rows. With one stored document that shares no word with the query
  \<open>xyz\<close> and no failing call, stages 1 to 3 yield nothing and stage 4 would yield the
  document; \<open>search_fallback\<close> returns the empty list.
\<close>

theorem search_fallback_no_last_resort:
  "fst (search_fallback ''xyz'' 8 (sample_world [stored ''d1'' ''hello world''] [] [])) = Inr []
   \<and> four_stage_spec ''xyz'' 8 [stored ''d1'' ''hello world''] = [stored ''d1'' ''hello world'']"
  by code_simp

text \<open>
  C2, amended: when no backend call fails, \<open>sys.stdout\<close> can encode the query and its
  lower-cased form, and the query does not contain \<open>project\<close> or a token follows its
  first \<open>project\<close>, \<open>search_fallback\<close> returns the rows of the first pattern of stages 1
  and 2 that matches any row, and the result of stage 3 otherwise, even when it is
  empty. When \<open>sys.stdout\<close> can encode the query, the first backend call of the fallback
  raises and the next one answers, it returns stage 4: the first \<open>top_k\<close> rows of the
  table.
\<close>

theorem search_fallback_stages:
  "(db_faults w = [] \<and> can_print w query \<and> can_print w (str_lower query) \<and>
    (str_contains ''project'' (str_lower query) \<longrightarrow> project_token query \<noteq> None)
      \<longrightarrow> fst (search_fallback query k w) = Inr (fallback_spec query k (table w)))
   \<and> (db_faults w = [DbRaise] \<and> can_print w query
      \<longrightarrow> fst (search_fallback query k w) = Inr (take k (table w)))"
  using fallback_chain[of w query k] fallback_last_resort[of w query k] by blast

theorem search_fallback_stages_witness:
  "fst (search_fallback ''please tell me about the project apollo'' 8
          (sample_world [stored ''d1'' ''zzz'', stored ''d2'' ''Project Apollo kickoff''] [] []))
     = Inr [stored ''d2'' ''Project Apollo kickoff'']
   \<and> fst (search_fallback ''please tell me about the project apollo'' 1
          (sample_world [stored ''d1'' ''zzz'', stored ''d2'' ''Project Apollo kickoff''] [DbRaise] []))
     = Inr [stored ''d1'' ''zzz'']"
proof -
  let ?q = "''please tell me about the project apollo''"
  let ?t = "[stored ''d1'' ''zzz'', stored ''d2'' ''Project Apollo kickoff'']"
  have h1: "db_faults (sample_world ?t [] []) = []"
    by (simp add: sample_world_def)
  have h2: "str_contains ''project'' (str_lower ?q) \<longrightarrow> project_token ?q \<noteq> None"
    by code_simp
  have h3: "db_faults (sample_world ?t [DbRaise] []) = [DbRaise]"
    by (simp add: sample_world_def)
  have p: "can_print (sample_world ?t [] []) ?q" "can_print (sample_world ?t [] []) (str_lower ?q)"
    "can_print (sample_world ?t [DbRaise] []) ?q"
    by code_simp+
  have t: "table (sample_world ?t [] []) = ?t" "table (sample_world ?t [DbRaise] []) = ?t"
    by (simp_all add: sample_world_def)
  have v1: "fallback_spec ?q 8 ?t = [stored ''d2'' ''Project Apollo kickoff'']"
    by code_simp
  have c1: "fst (search_fallback ?q 8 (sample_world ?t [] [])) = Inr (fallback_spec ?q 8 ?t)"
    using search_fallback_stages[of "sample_world ?t [] []" ?q 8] h1 h2 p t(1) by simp
  have c2: "fst (search_fallback ?q 1 (sample_world ?t [DbRaise] [])) = Inr (take 1 ?t)"
    using search_fallback_stages[of "sample_world ?t [DbRaise] []" ?q 1] h3 p t(2) by simp
  show ?thesis using c1 c2 v1 by simp
qed

text \<open>
  The case left out of the amended statement: \<open>project\<close> with no token after it.
  \<open>.split()[0]\<close> raises \<open>IndexError\<close> before the \<open>if project_name\<close> test, the handler
  returns stage 4, and stage 3, which would have found \<open>d2\<close>, is not run.
\<close>

lemma search_fallback_project_slip:
  "fst (search_fallback ''foo project'' 1
          (sample_world [stored ''d1'' ''zzz'', stored ''d2'' ''foo bar''] [] []))
     = Inr [stored ''d1'' ''zzz'']
   \<and> project_token ''foo project'' = None
   \<and> term_matches ''foo project'' 1 [stored ''d1'' ''zzz'', stored ''d2'' ''foo bar'']
     = [stored ''d2'' ''foo bar'']"
  by code_simp

subsection \<open>C3: blank queries\<close>

text \<open>
  C3 says that \<open>search\<close> rejects an empty or whitespace-only query with a validation
  error. \<open>search\<close> raises \<open>ValueError\<close> for such a query inside its own \<open>try\<close>, whose
  handler catches it and returns the result of \<open>search_fallback\<close>: on a store with one
  document and no failing call, the caller gets the empty list for the queries of
  three spaces and of no character.
\<close>

theorem search_blank_query_returns_list:
  "str_strip ''   '' = []
   \<and> fst (search ''   '' 8 (sample_world [stored ''d1'' ''hello world''] [] [])) = Inr []
   \<and> fst (search [] 8 (sample_world [stored ''d1'' ''hello world''] [] [])) = Inr []"
  by code_simp

subsection \<open>C4: degrading to the lexical fallback\<close>

text \<open>
  C4: for a query that is not blank, when the embedding call or the similarity query
  raises, or the similarity query answers with an error or with no row, \<open>search\<close>
  returns what \<open>search_fallback\<close> returns for the same query and the same \<open>top_k\<close>, run
  in the world the failed vector stage has left.
\<close>

theorem search_falls_back:
  assumes "str_strip query \<noteq> []"
    and "case fst (vector_stage query top_k w) of
           Inl e \<Rightarrow> True
         | Inr response \<Rightarrow> resp_error response \<or> resp_data response = []"
  shows "search query top_k w = search_fallback query top_k (snd (vector_stage query top_k w))"
proof (cases "vector_stage query top_k w")
  case (Pair r w1)
  show ?thesis
  proof (cases r)
    case (Inl e)
    with Pair assms(1) show ?thesis
      by (simp add: search_def try_except_def bind_def)
  next
    case (Inr response)
    from Inr Pair assms(2) have "resp_error response \<or> resp_data response = []" by simp
    with Pair Inr assms(1)
    have "search query top_k w
            = try_except (search_fallback query top_k) (\<lambda>e. search_fallback query top_k) w1"
      by (auto simp: search_def try_except_def bind_def Let_def)
    with Pair show ?thesis by (simp add: search_fallback_retry)
  qed
qed

theorem search_falls_back_witness:
  "fst (vector_stage ''remote work policy'' 8
          (sample_world [stored ''d1'' ''Remote work policy allows 3 days per week'']
                        [] [True, True, True]))
     = Inl EmbeddingError
   \<and> fst (search ''remote work policy'' 8
          (sample_world [stored ''d1'' ''Remote work policy allows 3 days per week'']
                        [] [True, True, True]))
     = Inr [stored ''d1'' ''Remote work policy allows 3 days per week'']"
proof -
  let ?q = "''remote work policy''"
  let ?w = "sample_world [stored ''d1'' ''Remote work policy allows 3 days per week'']
                         [] [True, True, True]"
  have h1: "str_strip ?q \<noteq> []" by code_simp
  have v: "fst (vector_stage ?q 8 ?w) = Inl EmbeddingError" by code_simp
  then have h2: "case fst (vector_stage ?q 8 ?w) of
                   Inl e \<Rightarrow> True
                 | Inr response \<Rightarrow> resp_error response \<or> resp_data response = []"
    by simp
  have c: "search ?q 8 ?w = search_fallback ?q 8 (snd (vector_stage ?q 8 ?w))"
    using search_falls_back[OF h1 h2] .
  have f: "fst (search_fallback ?q 8 (snd (vector_stage ?q 8 ?w)))
             = Inr [stored ''d1'' ''Remote work policy allows 3 days per week'']"
    by code_simp
  show ?thesis using v c f by simp
qed

subsection \<open>C5: reading back what was upserted\<close>




subsection \<open>C6: the parameters of search\<close>

text \<open>
  C6 gives \<open>search\<close> a score threshold below which results are excluded. \<open>search\<close>
  takes a query and \<open>top_k\<close> only, and returns the rows of the similarity query
  whatever their score: with two stored documents, the query \<open>zzz\<close> returns both, one
  with score 1 and one with score 0.
\<close>

theorem search_returns_low_scores:
  "map score
     (case fst (search ''zzz'' 8
                  (sample_world [stored ''d1'' ''zzz'', stored ''d2'' ''foo bar''] [] [])) of
        Inr rows \<Rightarrow> rows
      | Inl e \<Rightarrow> [])
   = [Some 1, Some 0]"
  by code_simp

text \<open>
  C6, amended: \<open>search\<close> has the parameters \<open>query\<close> and \<open>top_k\<close>, the latter with default
  8, and no score threshold. It never returns more than \<open>top_k\<close> rows. When the query
  is not blank and the similarity query answers without error with at least one row,
  \<open>search\<close> returns all the rows of that answer, with their metadata parsed and no
  row removed for its score.
\<close>

theorem search_top_k_only:
  "TOPK_DEFAULT = 8
   \<and> search_default query = search query 8
   \<and> (\<forall>rows. fst (search query k w) = Inr rows \<longrightarrow> length rows \<le> k)
   \<and> (\<forall>response.
        str_strip query \<noteq> [] \<and> fst (vector_stage query k w) = Inr response \<and>
        \<not> resp_error response \<and> resp_data response \<noteq> []
        \<longrightarrow> fst (search query k w) = Inr (map parse_metadata (resp_data response)))"
proof (intro conjI allI impI)
  show "TOPK_DEFAULT = 8" by (simp add: TOPK_DEFAULT_def)
  show "search_default query = search query 8"
    by (simp add: search_default_def TOPK_DEFAULT_def)
next
  fix rows
  assume "fst (search query k w) = Inr rows"
  then have "search query k w = (Inr rows, snd (search query k w))"
    by (simp add: prod_eq_iff)
  then show "length rows \<le> k" by (rule search_limit)
next
  fix response
  assume a: "str_strip query \<noteq> [] \<and> fst (vector_stage query k w) = Inr response \<and>
             \<not> resp_error response \<and> resp_data response \<noteq> []"
  obtain r1 w1 where v: "vector_stage query k w = (r1, w1)"
    by (cases "vector_stage query k w")
  with a have "r1 = Inr response" by simp
  with a v show "fst (search query k w) = Inr (map parse_metadata (resp_data response))"
    by (simp add: search_def try_except_def bind_def return_def Let_def)
qed

theorem search_top_k_only_witness:
  "fst (search ''zzz'' 1 (sample_world [stored ''d1'' ''zzz'', stored ''d2'' ''foo bar''] [] []))
     = Inr [\<lparr>doc_id = ''d1'', content = ''zzz'', embedding = None, metadata = PDict [],
             score = Some 1\<rparr>]
   \<and> length [\<lparr>doc_id = ''d1'', content = ''zzz'', embedding = None, metadata = PDict [],
               score = Some (1::real)\<rparr>] \<le> 1
   \<and> fst (search ''zzz'' 8 (sample_world [stored ''d1'' ''zzz'', stored ''d2'' ''foo bar''] [] []))
     = Inr (map parse_metadata
              [\<lparr>doc_id = ''d1'', content = ''zzz'', embedding = None, metadata = PStr ''{}'',
                 score = Some 1\<rparr>,
               \<lparr>doc_id = ''d2'', content = ''foo bar'', embedding = None, metadata = PStr ''{}'',
                 score = Some 0\<rparr>])"
proof -
  let ?w = "sample_world [stored ''d1'' ''zzz'', stored ''d2'' ''foo bar''] [] []"
  let ?r1 = "\<lparr>doc_id = ''d1'', content = ''zzz'', embedding = None, metadata = PDict [],
               score = Some (1::real)\<rparr>"
  let ?resp = "ok_response
     [\<lparr>doc_id = ''d1'', content = ''zzz'', embedding = None, metadata = PStr ''{}'',
        score = Some 1\<rparr>,
      \<lparr>doc_id = ''d2'', content = ''foo bar'', embedding = None, metadata = PStr ''{}'',
        score = Some 0\<rparr>]"
  have a1: "fst (search ''zzz'' 1 ?w) = Inr [?r1]" by code_simp
  have b1: "length [?r1] \<le> 1"
    using search_top_k_only[of "''zzz''" 1 ?w] a1 by blast
  have h: "str_strip ''zzz'' \<noteq> [] \<and> fst (vector_stage ''zzz'' 8 ?w) = Inr ?resp \<and>
           \<not> resp_error ?resp \<and> resp_data ?resp \<noteq> []"
    by code_simp
  have b2: "fst (search ''zzz'' 8 ?w) = Inr (map parse_metadata (resp_data ?resp))"
    using search_top_k_only[of "''zzz''" 8 ?w] h by blast
  show ?thesis using a1 b1 b2 by (simp add: ok_response_def)
qed

subsection \<open>C7: the delay between embedding attempts\<close>

text \<open>
  C7 says that both embedding helpers wait longer before each further attempt, the
  base delay times the attempt number. \<open>_embed_batch\<close> does. \<open>_embed_single\<close> sleeps
  \<open>_RETRY_DELAY\<close> each time: when the service fails twice and then answers, it has
  slept 2 and 2 seconds, where \<open>_embed_batch\<close> has slept 2 and 4. Both give up at
  the third failure.
\<close>

theorem embed_single_constant_delay:
  "sleeps (snd (embed_single ''hi'' (sample_world [] [] [True, True]))) = [2, 2]
   \<and> fst (embed_single ''hi'' (sample_world [] [] [True, True])) = Inr (sample_embed ''hi'')
   \<and> sleeps (snd (embed_batch [''hi''] (sample_world [] [] [True, True]))) = [2, 4]
   \<and> fst (embed_single ''hi'' (sample_world [] [] [True, True, True])) = Inl EmbeddingError
   \<and> fst (embed_batch [''hi''] (sample_world [] [] [True, True, True])) = Inl EmbeddingError"
  by code_simp

subsection \<open>C8: failures of write operations\<close>

text \<open>
  C8 says that a failed \<open>delete\<close> is never reported through the values used for the
  outcomes "existed" and "absent". When the backend raises, \<open>delete\<close> of a stored
  document returns \<open>False\<close>, the value it returns for an id that is not stored, and
  the document stays in the table.
\<close>

theorem delete_failure_reported_as_absent:
  "fst (delete ''d1'' (sample_world [stored ''d1'' ''zzz''] [DbRaise] [])) = Inr False
   \<and> table (snd (delete ''d1'' (sample_world [stored ''d1'' ''zzz''] [DbRaise] [])))
     = [stored ''d1'' ''zzz'']
   \<and> fst (delete ''d9'' (sample_world [stored ''d1'' ''zzz''] [] [])) = Inr False"
  by code_simp

text \<open>
  C8, amended: when the next backend request fails (it raises, or it answers with
  an error), \<open>upsert\<close> raises an error to its caller, and \<open>delete\<close> returns \<open>False\<close>, as
  it does for an id that is not stored.
\<close>

theorem write_failures:
  assumes "next_call_fails w"
  shows "(\<exists>e. fst (upsert did tx meta w) = Inl e) \<and> fst (delete did w) = Inr False"
  using assms upsert_raises[of w did tx meta] delete_masks[of w did] by blast

theorem write_failures_witness:
  "fst (upsert ''d1'' ''hello'' (PDict []) (sample_world [] [DbError] [])) = Inl RuntimeError
   \<and> fst (delete ''d1'' (sample_world [] [DbError] [])) = Inr False"
proof -
  have h: "next_call_fails (sample_world [] [DbError] [])" by code_simp
  have u: "fst (upsert ''d1'' ''hello'' (PDict []) (sample_world [] [DbError] [])) = Inl RuntimeError"
    by code_simp
  show ?thesis
    using write_failures[OF h, of "''d1''" "''hello''" "PDict []"] u by simp
qed

subsection \<open>C9: search always returns a list\<close>

text \<open>
  C9 says that \<open>search\<close> returns a list for every query and raises nothing.
  \<open>search_fallback\<close> prints the query before its \<open>try\<close>, and the handler of \<open>search\<close>
  calls \<open>search_fallback\<close> outside any \<open>try\<close>. With an ASCII \<open>sys.stdout\<close>, the query of
  the one character \<open>e\<close> with an acute accent (code 233) and an embedding service that
  fails, \<open>search\<close> raises \<open>UnicodeEncodeError\<close>; it does so too when the service answers
  and the store is empty. With a stored document and a vector search that answers,
  the fallback is not reached and the same query returns a list.
\<close>

theorem search_raises_unprintable_query:
  "\<not> can_print (sample_world [stored ''d1'' ''hello''] [] [True, True, True]) [CHR 0xE9]
   \<and> fst (search [CHR 0xE9] 8 (sample_world [stored ''d1'' ''hello''] [] [True, True, True]))
     = Inl UnicodeEncodeError
   \<and> fst (search [CHR 0xE9] 8 (sample_world [] [] [])) = Inl UnicodeEncodeError
   \<and> fst (search [CHR 0xE9] 8 (sample_world [stored ''d1'' ''hello''] [] []))
     = Inr [\<lparr>doc_id = ''d1'', content = ''hello'', embedding = None, metadata = PDict [],
             score = Some 0\<rparr>]"
  by code_simp

subsection \<open>C10: failures of read operations\<close>

text \<open>
  C10: when the next backend request fails, \<open>count_documents\<close> returns 0 and
  \<open>get_document\<close> returns \<open>None\<close>, and neither raises. These are the values they return
  on a backend that answers, for an empty table and for an id that is not stored.
\<close>

theorem read_failures_masked:
  assumes "next_call_fails w"
  shows "fst (count_documents w) = Inr 0
       \<and> fst (get_document did w) = Inr None
       \<and> fst (count_documents (w\<lparr>table := [], db_faults := []\<rparr>)) = Inr 0
       \<and> fst (get_document did
                (w\<lparr>table := filter (\<lambda>r. doc_id r \<noteq> did) (table w), db_faults := []\<rparr>))
           = Inr None"
proof -
  have "fst (count_documents (w\<lparr>table := [], db_faults := []\<rparr>)) = Inr 0"
    by (simp add: count_documents_def try_except_def bind_def return_def execute_def q_count_def)
  moreover have "fst (get_document did
                   (w\<lparr>table := filter (\<lambda>r. doc_id r \<noteq> did) (table w), db_faults := []\<rparr>))
                 = Inr None"
    by (simp add: get_document_def try_except_def bind_def return_def execute_def
                  q_select_eq_def ok_response_def)
  ultimately show ?thesis
    using assms count_masks[of w] get_masks[of w did] by simp
qed

theorem read_failures_masked_witness:
  "fst (count_documents (sample_world [stored ''d1'' ''zzz''] [DbRaise] [])) = Inr 0
   \<and> fst (get_document ''d1'' (sample_world [stored ''d1'' ''zzz''] [DbRaise] [])) = Inr None"
proof -
  have h: "next_call_fails (sample_world [stored ''d1'' ''zzz''] [DbRaise] [])" by code_simp
  show ?thesis using read_failures_masked[OF h, of "''d1''"] by simp
qed

end
